theory Spec2Isabelle
  imports Main "HOL-Library.Char_ord" "HOL-Library.List_Lexorder" "HOL-Library.Multiset"
begin

section \<open>Strings as the scripts use them\<close>

text \<open>
  Paths and names are JavaScript strings; they are modelled as \<^typ>\<open>string\<close>, the
  strings whose code units are below 256. \<open>startsWith\<close>, \<open>includes\<close>,
  \<open>slice\<close>/\<open>substring\<close> with one argument, \<open>trim\<close>, \<open>toLowerCase\<close> and
  \<open>toUpperCase\<close> are the built-ins the sources call. \<open>trim\<close> strips the white space
  and the line terminators of ECMAScript, of which the tab, the line feed, the
  vertical tab, the form feed, the carriage return, the space and the no-break space
  \<open>U+00A0\<close> are below 256. \<open>toLowerCase\<close> maps \<open>A\<close> to \<open>Z\<close> and the capital letters
  \<open>U+00C0\<close> to \<open>U+00DE\<close> (all but the multiplication sign \<open>U+00D7\<close>) to the letter 32
  code units further. \<open>toUpperCase\<close> is modelled on the letters \<open>a\<close> to \<open>z\<close>; the
  sources apply it to a name to look it up in a list of ASCII names only.
\<close>

definition startsWith :: "string \<Rightarrow> string \<Rightarrow> bool" where
  "startsWith s p = (take (length p) s = p)"

fun str_includes :: "string \<Rightarrow> string \<Rightarrow> bool" where
  "str_includes [] t = (t = [])"
| "str_includes (c # s) t = (startsWith (c # s) t \<or> str_includes s t)"

definition slice_from :: "string \<Rightarrow> nat \<Rightarrow> string" where
  "slice_from s n = drop n s"

definition is_space :: "char \<Rightarrow> bool" where
  "is_space c =
     (c \<in> set [CHR '' '', CHR 0x09, CHR 0x0A, CHR 0x0B, CHR 0x0C, CHR 0x0D, CHR 0xA0])"

definition trim :: "string \<Rightarrow> string" where
  "trim s = rev (dropWhile is_space (rev (dropWhile is_space s)))"

definition capitals :: string where
  "capitals = ''ABCDEFGHIJKLMNOPQRSTUVWXYZ'' @ [
          CHR 0xC0, CHR 0xC1, CHR 0xC2, CHR 0xC3, CHR 0xC4, CHR 0xC5, CHR 0xC6, CHR 0xC7,
          CHR 0xC8, CHR 0xC9, CHR 0xCA, CHR 0xCB, CHR 0xCC, CHR 0xCD, CHR 0xCE, CHR 0xCF,
          CHR 0xD0, CHR 0xD1, CHR 0xD2, CHR 0xD3, CHR 0xD4, CHR 0xD5, CHR 0xD6, CHR 0xD8,
          CHR 0xD9, CHR 0xDA, CHR 0xDB, CHR 0xDC, CHR 0xDD, CHR 0xDE]"

definition smalls :: string where
  "smalls = ''abcdefghijklmnopqrstuvwxyz'' @ [
          CHR 0xE0, CHR 0xE1, CHR 0xE2, CHR 0xE3, CHR 0xE4, CHR 0xE5, CHR 0xE6, CHR 0xE7,
          CHR 0xE8, CHR 0xE9, CHR 0xEA, CHR 0xEB, CHR 0xEC, CHR 0xED, CHR 0xEE, CHR 0xEF,
          CHR 0xF0, CHR 0xF1, CHR 0xF2, CHR 0xF3, CHR 0xF4, CHR 0xF5, CHR 0xF6, CHR 0xF8,
          CHR 0xF9, CHR 0xFA, CHR 0xFB, CHR 0xFC, CHR 0xFD, CHR 0xFE]"

definition lower_char :: "char \<Rightarrow> char" where
  "lower_char c = (case map_of (zip capitals smalls) c of None \<Rightarrow> c | Some d \<Rightarrow> d)"

definition upper_char :: "char \<Rightarrow> char" where
  "upper_char c =
     (case map_of (zip ''abcdefghijklmnopqrstuvwxyz'' ''ABCDEFGHIJKLMNOPQRSTUVWXYZ'') c of
        None \<Rightarrow> c
      | Some d \<Rightarrow> d)"

definition toLowerCase :: "string \<Rightarrow> string" where
  "toLowerCase s = map lower_char s"

definition toUpperCase :: "string \<Rightarrow> string" where
  "toUpperCase s = map upper_char s"

text \<open>JavaScript truthiness of a value that is a string, \<open>null\<close> or \<open>undefined\<close>.\<close>

definition truthy :: "string option \<Rightarrow> bool" where
  "truthy v = (case v of None \<Rightarrow> False | Some s \<Rightarrow> s \<noteq> [])"

section \<open>Inline rename: the editing state\<close>

text \<open>
  DOM elements are compared by identity in the sources (\<open>===\<close>), so an element is
  modelled by an identifier. The file pane keeps \<open>editingFileElement\<close> and
  \<open>editingFileData\<close> on the files manager; the folder pane keeps \<open>editingFolder\<close>,
  \<open>editingFolderData\<close> and \<open>isRenamingFolder\<close> on the shared state object.
\<close>

type_synonym elem = nat

record node =
  node_name :: string
  node_path :: string

record edit_state =
  editingFileElement :: "elem option"
  editingFileData :: "node option"
  editingFolder :: "elem option"
  editingFolderData :: "node option"
  isRenamingFolder :: bool

text \<open>
  \<open>startFileRename(listItem, file, nameDiv)\<close>: returns at once when some list item is
  being edited (another one, or this one), and when the list item has no
  \<open>.file-info\<close> child (\<open>hasFileInfo\<close>); otherwise records the list item and its data.
\<close>

definition startFileRename :: "edit_state \<Rightarrow> elem \<Rightarrow> node \<Rightarrow> bool \<Rightarrow> edit_state" where
  "startFileRename s listItem file hasFileInfo =
     (if editingFileElement s \<noteq> None \<and> editingFileElement s \<noteq> Some listItem then s
      else if editingFileElement s = Some listItem then s
      else if \<not> hasFileInfo then s
      else s\<lparr>editingFileElement := Some listItem, editingFileData := Some file\<rparr>)"

text \<open>
  \<open>startFolderRename(folderElement, item)\<close>: returns at once when another folder
  element is being edited or when \<open>isRenamingFolder\<close> is set; otherwise sets the flag
  and records the element and its data.
\<close>

definition startFolderRename :: "edit_state \<Rightarrow> elem \<Rightarrow> node \<Rightarrow> edit_state" where
  "startFolderRename s folderElement item =
     (if editingFolder s \<noteq> None \<and> editingFolder s \<noteq> Some folderElement then s
      else if isRenamingFolder s then s
      else s\<lparr>isRenamingFolder := True,
             editingFolder := Some folderElement,
             editingFolderData := Some item\<rparr>)"

text \<open>\<open>cancelFileRename()\<close> and \<open>cancelFolderRename()\<close>.\<close>

definition cancelFileRename :: "edit_state \<Rightarrow> edit_state" where
  "cancelFileRename s =
     (if editingFileData s = None then s\<lparr>editingFileElement := None\<rparr>
      else s\<lparr>editingFileElement := None, editingFileData := None\<rparr>)"

definition cancelFolderRename :: "edit_state \<Rightarrow> edit_state" where
  "cancelFolderRename s =
     (if editingFolderData s = None then s
      else s\<lparr>editingFolder := None, editingFolderData := None, isRenamingFolder := False\<rparr>)"

text \<open>A state in which the folder with element 1 is being renamed and no file is.\<close>

definition folder_in_edit :: edit_state where
  "folder_in_edit =
     \<lparr>editingFileElement = None, editingFileData = None,
      editingFolder = Some 1,
      editingFolderData = Some \<lparr>node_name = ''music'', node_path = ''music''\<rparr>,
      isRenamingFolder = True\<rparr>"

text \<open>A state in which the list item 5 is being renamed and the folder element 1 too.\<close>

definition both_in_edit :: edit_state where
  "both_in_edit =
     folder_in_edit\<lparr>editingFileElement := Some 5,
       editingFileData := Some \<lparr>node_name = ''a.mp3'', node_path = ''music/a.mp3''\<rparr>\<rparr>"

section \<open>Inline rename: what the guards give\<close>

text \<open>
  C9, as stated, fails: while a folder is being renamed, starting a rename on a list
  item of the file pane is not a no-op. The guard of \<open>startFileRename\<close> reads only the
  file pane's own field, so afterwards a folder and a file are in inline-rename mode
  together.
\<close>

theorem C9_cross_pane_counterexample:
  "startFileRename folder_in_edit 5 \<lparr>node_name = ''a.mp3'', node_path = ''music/a.mp3''\<rparr> True
     \<noteq> folder_in_edit
   \<and> editingFileElement
       (startFileRename folder_in_edit 5 \<lparr>node_name = ''a.mp3'', node_path = ''music/a.mp3''\<rparr> True)
     = Some 5
   \<and> editingFolder
       (startFileRename folder_in_edit 5 \<lparr>node_name = ''a.mp3'', node_path = ''music/a.mp3''\<rparr> True)
     = Some 1"
  by (simp add: startFileRename_def folder_in_edit_def)

text \<open>
  C9, amended: the exclusion holds per pane. While a list item is being renamed,
  \<open>startFileRename\<close> on any list item leaves the editing state unchanged; while a folder
  element is being renamed, \<open>startFolderRename\<close> on any other folder element leaves the
  editing state unchanged. Each pane holds at most one edited element (its field
  holds one element or none).
\<close>

theorem C9_rename_exclusive_per_pane:
  "(editingFileElement s = Some e \<longrightarrow> startFileRename s listItem file hasFileInfo = s)
   \<and> (editingFolder s = Some e' \<and> e' \<noteq> folderElement \<longrightarrow>
        startFolderRename s folderElement item = s)"
  by (simp add: startFileRename_def startFolderRename_def)

theorem C9_rename_exclusive_per_pane_witness:
  "editingFileElement both_in_edit = Some 5
   \<and> startFileRename both_in_edit 6 \<lparr>node_name = ''b.mp3'', node_path = ''music/b.mp3''\<rparr> True
       = both_in_edit
   \<and> editingFolder both_in_edit = Some 1
   \<and> startFolderRename both_in_edit 2 \<lparr>node_name = ''video'', node_path = ''video''\<rparr>
       = both_in_edit"
  using C9_rename_exclusive_per_pane
    [of both_in_edit 5 6 "\<lparr>node_name = ''b.mp3'', node_path = ''music/b.mp3''\<rparr>" True 1 2
        "\<lparr>node_name = ''video'', node_path = ''video''\<rparr>"]
  by (simp add: both_in_edit_def folder_in_edit_def)

section \<open>JavaScript sets and array searches\<close>

text \<open>
  A JavaScript \<open>Set\<close> keeps its members in insertion order; it is modelled as a list
  with \<open>has\<close>, \<open>add\<close> and \<open>delete\<close>.
\<close>

definition jsset_has :: "'a list \<Rightarrow> 'a \<Rightarrow> bool" where
  "jsset_has xs x = (x \<in> set xs)"

definition jsset_add :: "'a list \<Rightarrow> 'a \<Rightarrow> 'a list" where
  "jsset_add xs x = (if x \<in> set xs then xs else xs @ [x])"

definition jsset_delete :: "'a list \<Rightarrow> 'a \<Rightarrow> 'a list" where
  "jsset_delete xs x = removeAll x xs"

text \<open>\<open>findIndex\<close> and \<open>indexOf\<close>: the first index, \<open>None\<close> for the script's \<open>-1\<close>.\<close>

fun findIndex :: "('a \<Rightarrow> bool) \<Rightarrow> 'a list \<Rightarrow> nat option" where
  "findIndex P [] = None"
| "findIndex P (x # xs) = (if P x then Some 0 else map_option Suc (findIndex P xs))"

text \<open>
  A rendered row (a list item of the file pane, a tree item of the folder pane): the
  element's identity and the path in its \<open>dataset\<close>.
\<close>

record item_el =
  el_id :: elem
  data_path :: string

definition indexOf :: "item_el list \<Rightarrow> item_el \<Rightarrow> nat option" where
  "indexOf items target = findIndex (\<lambda>it. el_id it = el_id target) items"

section \<open>Path tests\<close>

text \<open>
  The test \<open>p === a || p.startsWith(a + '/')\<close> that the sources write out wherever a
  path is compared with a folder (the spec's \<open>isAncestor(a, p)\<close>).
\<close>

definition isAncestor :: "string \<Rightarrow> string \<Rightarrow> bool" where
  "isAncestor a p = (p = a \<or> startsWith p (a @ ''/''))"

section \<open>The folder pane: a plain click\<close>

text \<open>
  \<open>State.selectedTreeItem\<close> holds a tree item of the document or, from the start of
  \<open>reloadTreePreservingState\<close> until the tree is rebuilt, the object
  \<open>{ dataset: { path: selectedPath } }\<close>, which is not an element.
\<close>

datatype tree_selection = TreeItem item_el | PlainObject string

fun dataset_path :: "tree_selection \<Rightarrow> string" where
  "dataset_path (TreeItem el) = data_path el"
| "dataset_path (PlainObject path) = path"

text \<open>\<open>previousItem === div\<close>.\<close>

fun is_element :: "tree_selection \<Rightarrow> item_el \<Rightarrow> bool" where
  "is_element (TreeItem el) dv = (el_id el = el_id dv)"
| "is_element (PlainObject path) dv = False"

record tree_pane =
  selectedFolderPaths :: "string list"
  treeAnchorPath :: "string option"
  selectedTreeItem :: "tree_selection option"
  expandedFolders :: "string list"

text \<open>
  \<open>clearFolderSelection\<close> and \<open>toggleFolderSelected\<close>, without the footer request
  they start (the requests are modelled with the request sequencer).
\<close>

definition clearFolderSelection :: "'a tree_pane_scheme \<Rightarrow> 'a tree_pane_scheme" where
  "clearFolderSelection t = t\<lparr>selectedFolderPaths := []\<rparr>"

definition toggleFolderSelected ::
  "'a tree_pane_scheme \<Rightarrow> item_el \<Rightarrow> bool option \<Rightarrow> 'a tree_pane_scheme" where
  "toggleFolderSelected t treeItem forceSelected =
     (let path = data_path treeItem;
          isSelected = jsset_has (selectedFolderPaths t) path;
          shouldSelect = (case forceSelected of None \<Rightarrow> \<not> isSelected | Some b \<Rightarrow> b)
      in if shouldSelect then t\<lparr>selectedFolderPaths := jsset_add (selectedFolderPaths t) path\<rparr>
         else t\<lparr>selectedFolderPaths := jsset_delete (selectedFolderPaths t) path\<rparr>)"

text \<open>
  \<open>content.onclick\<close> without shift and ctrl, for the tree item that
  \<open>createTreeItem(item, level)\<close> made: \<open>dv\<close> is its element \<open>div\<close>, whose
  \<open>dataset.path\<close> the selection reads, and \<open>item_path\<close> is \<open>item.path\<close>, which the
  handler reads for the test of the ancestor and for the expansion set.
  \<open>previousItem.querySelector\<close> is a \<open>TypeError\<close> when the previous item is not an
  element; the handler ends there. \<open>selectTreeItemCallback\<close> is given to the module at
  initialisation and is not part of these sources: it is a parameter. \<open>isExpanded\<close> is
  whether the clicked item's child container carries the class \<open>expanded\<close>.
\<close>

datatype js_error = TypeError

definition collapsePrevious ::
  "'a tree_pane_scheme \<Rightarrow> item_el \<Rightarrow> string \<Rightarrow> js_error option \<times> 'a tree_pane_scheme" where
  "collapsePrevious t dv item_path =
     (case selectedTreeItem t of
        None \<Rightarrow> (None, t)
      | Some previousItem \<Rightarrow>
          if \<not> is_element previousItem dv then
            (let previousPath = dataset_path previousItem;
                 isAnc = (previousPath \<noteq> [] \<and> item_path \<noteq> []
                          \<and> startsWith item_path (previousPath @ ''/''))
             in if previousPath \<noteq> [] \<and> \<not> isAnc \<and> jsset_has (expandedFolders t) previousPath
                then (case previousItem of
                        PlainObject path \<Rightarrow> (Some TypeError, t)
                      | TreeItem el \<Rightarrow>
                          (None,
                           t\<lparr>expandedFolders := jsset_delete (expandedFolders t) previousPath\<rparr>))
                else (None, t))
          else (None, t))"

definition onclick_plain ::
  "(item_el \<Rightarrow> 'a tree_pane_scheme \<Rightarrow> 'a tree_pane_scheme) \<Rightarrow> 'a tree_pane_scheme
     \<Rightarrow> item_el \<Rightarrow> string \<Rightarrow> bool \<Rightarrow> js_error option \<times> 'a tree_pane_scheme" where
  "onclick_plain selectTreeItemCallback t dv item_path isExpanded =
     (let t1 = clearFolderSelection t;
          t2 = toggleFolderSelected t1 dv (Some True);
          t3 = t2\<lparr>treeAnchorPath := Some (data_path dv)\<rparr>;
          (raised, t4) = collapsePrevious t3 dv item_path
      in case raised of
           Some err \<Rightarrow> (Some err, t4)
         | None \<Rightarrow>
             (let t5 = selectTreeItemCallback dv t4
              in if \<not> isExpanded
                 then (None, t5\<lparr>expandedFolders := jsset_add (expandedFolders t5) item_path\<rparr>)
                 else (None, t5\<lparr>expandedFolders := jsset_delete (expandedFolders t5) item_path\<rparr>)))"

lemma startsWith_longer: "startsWith p (a @ ''/'') \<Longrightarrow> p \<noteq> a"
  by (auto simp: startsWith_def)

lemma jsset_has_add [simp]: "jsset_has (jsset_add xs x) y = (y = x \<or> jsset_has xs y)"
  by (auto simp: jsset_has_def jsset_add_def)

lemma jsset_has_delete [simp]: "jsset_has (jsset_delete xs x) y = (y \<noteq> x \<and> jsset_has xs y)"
  by (auto simp: jsset_has_def jsset_delete_def)

lemma selection_keeps_expanded:
  "expandedFolders (clearFolderSelection t) = expandedFolders t"
  "expandedFolders (toggleFolderSelected t d f) = expandedFolders t"
  "selectedTreeItem (clearFolderSelection t) = selectedTreeItem t"
  "selectedTreeItem (toggleFolderSelected t d f) = selectedTreeItem t"
  by (simp_all add: toggleFolderSelected_def clearFolderSelection_def Let_def)

lemma collapsePrevious_of_element:
  assumes "selectedTreeItem t = Some (TreeItem P)"
  shows "fst (collapsePrevious t dv item_path) = None"
    and "expandedFolders (snd (collapsePrevious t dv item_path))
           = (if el_id P \<noteq> el_id dv \<and> data_path P \<noteq> []
                 \<and> \<not> (item_path \<noteq> [] \<and> startsWith item_path (data_path P @ ''/''))
              then jsset_delete (expandedFolders t) (data_path P)
              else expandedFolders t)"
proof -
  show "fst (collapsePrevious t dv item_path) = None"
    using assms by (simp add: collapsePrevious_def Let_def)
  have absent: "jsset_delete xs x = xs" if "\<not> jsset_has xs x" for xs :: "string list" and x
    using that by (induction xs) (auto simp: jsset_delete_def jsset_has_def)
  show "expandedFolders (snd (collapsePrevious t dv item_path))
           = (if el_id P \<noteq> el_id dv \<and> data_path P \<noteq> []
                 \<and> \<not> (item_path \<noteq> [] \<and> startsWith item_path (data_path P @ ''/''))
              then jsset_delete (expandedFolders t) (data_path P)
              else expandedFolders t)"
    using assms by (auto simp: collapsePrevious_def Let_def absent)
qed

lemma onclick_plain_of_element:
  assumes prev: "selectedTreeItem t = Some (TreeItem P)"
    and cb: "\<forall>d u. expandedFolders (cb d u) = expandedFolders u"
    and E: "E = expandedFolders (snd (collapsePrevious
                (toggleFolderSelected (clearFolderSelection t) dv (Some True)
                   \<lparr>treeAnchorPath := Some (data_path dv)\<rparr>) dv item_path))"
  shows "jsset_has (expandedFolders (snd (onclick_plain cb t dv item_path isExpanded))) q
           = (if isExpanded then q \<noteq> item_path \<and> jsset_has E q
              else q = item_path \<or> jsset_has E q)"
proof -
  let ?t3 = "toggleFolderSelected (clearFolderSelection t) dv (Some True)
               \<lparr>treeAnchorPath := Some (data_path dv)\<rparr>"
  have sel: "selectedTreeItem ?t3 = Some (TreeItem P)"
    using prev by (simp add: selection_keeps_expanded)
  obtain t4 where c: "collapsePrevious ?t3 dv item_path = (None, t4)"
    using collapsePrevious_of_element(1) [OF sel, of dv item_path]
    by (cases "collapsePrevious ?t3 dv item_path") simp
  then have E4: "E = expandedFolders t4" using E by simp
  show ?thesis
    using cb by (simp add: onclick_plain_def Let_def c E4)
qed

text \<open>
  The policy holds of the path that the handler reads, \<open>item.path\<close>, when the
  previous item is an element: while the folder \<open>P\<close> is the selected item and is
  expanded, a plain click on another tree item takes \<open>P\<close> out of the expansion set if
  neither \<open>item.path\<close> nor the path of \<open>P\<close> is the other or lies under it, and leaves it
  there if \<open>item.path\<close> starts with the path of \<open>P\<close> and \<open>'/'\<close>.
\<close>

lemma collapse_on_switch_by_item_path:
  assumes prev: "selectedTreeItem t = Some (TreeItem P)"
    and expanded: "jsset_has (expandedFolders t) (data_path P)"
    and cb: "\<forall>d u. expandedFolders (cb d u) = expandedFolders u"
  shows "(el_id P \<noteq> el_id dv \<and> data_path P \<noteq> []
            \<and> \<not> isAncestor item_path (data_path P)
            \<and> \<not> isAncestor (data_path P) item_path
          \<longrightarrow> \<not> jsset_has (expandedFolders (snd (onclick_plain cb t dv item_path isExpanded)))
                  (data_path P))
       \<and> (startsWith item_path (data_path P @ ''/'')
          \<longrightarrow> jsset_has (expandedFolders (snd (onclick_plain cb t dv item_path isExpanded)))
                (data_path P))"
proof -
  let ?t3 = "toggleFolderSelected (clearFolderSelection t) dv (Some True)
               \<lparr>treeAnchorPath := Some (data_path dv)\<rparr>"
  let ?E = "expandedFolders (snd (collapsePrevious ?t3 dv item_path))"
  have sel: "selectedTreeItem ?t3 = Some (TreeItem P)"
    using prev by (simp add: selection_keeps_expanded)
  have ex3: "expandedFolders ?t3 = expandedFolders t"
    by (simp add: selection_keeps_expanded)
  note E = collapsePrevious_of_element(2) [OF sel, of dv item_path, unfolded ex3]
  note click = onclick_plain_of_element [OF prev cb refl, of dv item_path isExpanded]
  show ?thesis
  proof (intro conjI impI)
    assume h: "el_id P \<noteq> el_id dv \<and> data_path P \<noteq> []
              \<and> \<not> isAncestor item_path (data_path P)
              \<and> \<not> isAncestor (data_path P) item_path"
    then have ne: "data_path P \<noteq> item_path"
      and nd: "\<not> startsWith item_path (data_path P @ ''/'')"
      by (auto simp: isAncestor_def)
    from h nd have "?E = jsset_delete (expandedFolders t) (data_path P)"
      unfolding E by simp
    then have "\<not> jsset_has ?E (data_path P)" by simp
    with ne show "\<not> jsset_has (expandedFolders (snd (onclick_plain cb t dv item_path isExpanded)))
            (data_path P)"
      unfolding click by simp
  next
    assume d: "startsWith item_path (data_path P @ ''/'')"
    then have ne: "item_path \<noteq> data_path P"
      by (rule startsWith_longer)
    have nonempty: "item_path \<noteq> []"
      using d by (auto simp: startsWith_def)
    from d nonempty have "?E = expandedFolders t"
      unfolding E by simp
    with expanded have "jsset_has ?E (data_path P)" by simp
    with ne show "jsset_has (expandedFolders (snd (onclick_plain cb t dv item_path isExpanded)))
            (data_path P)"
      unfolding click by auto
  qed
qed

text \<open>
  The scenario of the spec, in a tree as \<open>createTreeItem\<close> made it: \<open>A\<close> selected and
  expanded; a click on the sibling \<open>B\<close> collapses \<open>A\<close>, a click on \<open>A/sub\<close> does not.
\<close>

definition t_A_expanded :: tree_pane where
  "t_A_expanded =
     \<lparr>selectedFolderPaths = [''A''], treeAnchorPath = Some ''A'',
      selectedTreeItem = Some (TreeItem \<lparr>el_id = 1, data_path = ''A''\<rparr>),
      expandedFolders = [''A'']\<rparr>"

definition mark_selected :: "item_el \<Rightarrow> 'a tree_pane_scheme \<Rightarrow> 'a tree_pane_scheme" where
  "mark_selected d u = u\<lparr>selectedTreeItem := Some (TreeItem d)\<rparr>"

lemma collapse_on_switch_scenario:
  "expandedFolders (snd (onclick_plain mark_selected t_A_expanded
       \<lparr>el_id = 2, data_path = ''B''\<rparr> ''B'' False)) = [''B'']
   \<and> expandedFolders (snd (onclick_plain mark_selected t_A_expanded
       \<lparr>el_id = 3, data_path = ''A/sub''\<rparr> ''A/sub'' False)) = [''A'', ''A/sub'']"
  by code_simp

section \<open>Range selection\<close>

record files_pane =
  selectedFilePaths :: "string list"
  selectionAnchorPath :: "string option"
  selectedListItem :: "item_el option"

definition js_or :: "string option \<Rightarrow> string option \<Rightarrow> string option" where
  "js_or a b = (if truthy a then a else b)"

definition anchorIndexOf :: "string option \<Rightarrow> item_el list \<Rightarrow> nat option" where
  "anchorIndexOf anchorPath items =
     (case anchorPath of
        None \<Rightarrow> None
      | Some p \<Rightarrow> if p = [] then None else findIndex (\<lambda>it. data_path it = p) items)"

definition clearFileSelection :: "files_pane \<Rightarrow> files_pane" where
  "clearFileSelection fm = fm\<lparr>selectedFilePaths := []\<rparr>"

definition toggleFileSelected :: "files_pane \<Rightarrow> item_el \<Rightarrow> bool option \<Rightarrow> files_pane" where
  "toggleFileSelected fm listItem forceSelected =
     (let path = data_path listItem;
          isSelected = jsset_has (selectedFilePaths fm) path;
          shouldSelect = (case forceSelected of None \<Rightarrow> \<not> isSelected | Some b \<Rightarrow> b)
      in if shouldSelect then fm\<lparr>selectedFilePaths := jsset_add (selectedFilePaths fm) path\<rparr>
         else fm\<lparr>selectedFilePaths := jsset_delete (selectedFilePaths fm) path\<rparr>)"

definition fileAnchorPath :: "files_pane \<Rightarrow> string option" where
  "fileAnchorPath fm =
     js_or (selectionAnchorPath fm)
       (case selectedListItem fm of None \<Rightarrow> None | Some li \<Rightarrow> Some (data_path li))"

definition selectFileRange :: "files_pane \<Rightarrow> item_el list \<Rightarrow> item_el \<Rightarrow> bool \<Rightarrow> files_pane" where
  "selectFileRange fm items targetItem additive =
     (if items = [] then fm
      else case indexOf items targetItem of
        None \<Rightarrow> fm
      | Some targetIndex \<Rightarrow>
          (let anchorIndex = anchorIndexOf (fileAnchorPath fm) items;
               a = (case anchorIndex of None \<Rightarrow> targetIndex | Some i \<Rightarrow> i);
               startIndex = min a targetIndex;
               endIndex = max a targetIndex;
               fm1 = (if \<not> additive then clearFileSelection fm else fm)
           in fold (\<lambda>i f. toggleFileSelected f (items ! i) (Some True))
                [startIndex..<Suc endIndex] fm1))"

definition treeAnchor :: "tree_pane \<Rightarrow> string option" where
  "treeAnchor t =
     js_or (treeAnchorPath t)
       (case selectedTreeItem t of None \<Rightarrow> None | Some ti \<Rightarrow> Some (dataset_path ti))"

definition selectFolderRange :: "tree_pane \<Rightarrow> item_el list \<Rightarrow> item_el \<Rightarrow> bool \<Rightarrow> tree_pane" where
  "selectFolderRange t items targetItem additive =
     (if items = [] then t
      else case indexOf items targetItem of
        None \<Rightarrow> t
      | Some targetIndex \<Rightarrow>
          (let anchorIndex = anchorIndexOf (treeAnchor t) items;
               a = (case anchorIndex of None \<Rightarrow> targetIndex | Some i \<Rightarrow> i);
               startIndex = min a targetIndex;
               endIndex = max a targetIndex;
               t1 = (if \<not> additive then t\<lparr>selectedFolderPaths := []\<rparr> else t)
           in fold (\<lambda>i u. u\<lparr>selectedFolderPaths :=
                               jsset_add (selectedFolderPaths u) (data_path (items ! i))\<rparr>)
                [startIndex..<Suc endIndex] t1))"

lemma findIndex_Some: "findIndex P xs = Some i \<Longrightarrow> i < length xs \<and> P (xs ! i)"
proof (induction xs arbitrary: i)
  case Nil
  then show ?case by simp
next
  case (Cons x xs)
  then show ?case by (auto split: if_splits)
qed

lemma findIndex_None: "(findIndex P xs = None) = (\<forall>x \<in> set xs. \<not> P x)"
  by (induction xs) auto

lemma findIndex_distinct:
  "distinct (map f xs) \<Longrightarrow> i < length xs \<Longrightarrow> findIndex (\<lambda>x. f x = f (xs ! i)) xs = Some i"
proof (induction xs arbitrary: i)
  case Nil
  then show ?case by simp
next
  case (Cons x xs)
  show ?case
  proof (cases i)
    case 0
    then show ?thesis by simp
  next
    case (Suc j)
    with Cons.prems have j: "j < length xs" and d: "distinct (map f xs)"
      and nx: "f x \<notin> f ` set xs" by auto
    from j nx have "f x \<noteq> f (xs ! j)" by (metis imageI nth_mem)
    with Cons.IH [OF d j] Suc show ?thesis by simp
  qed
qed

lemma fold_jsset_add_set:
  "set (fold (\<lambda>i xs. jsset_add xs (g i)) is xs) = set xs \<union> g ` set is"
  by (induction "is" arbitrary: xs) (auto simp: jsset_add_def)

lemma fold_toggle_files:
  "selectedFilePaths (fold (\<lambda>i f. toggleFileSelected f (items ! i) (Some True)) is fm)
     = fold (\<lambda>i xs. jsset_add xs (data_path (items ! i))) is (selectedFilePaths fm)"
  by (induction "is" arbitrary: fm) (simp_all add: toggleFileSelected_def Let_def)

lemma fold_add_folders:
  "selectedFolderPaths
     (fold (\<lambda>i u. u\<lparr>selectedFolderPaths :=
                      jsset_add (selectedFolderPaths u) (data_path (items ! i))\<rparr>) is t)
     = fold (\<lambda>i xs. jsset_add xs (data_path (items ! i))) is (selectedFolderPaths t)"
  by (induction "is" arbitrary: t) simp_all

lemma path_in_range:
  assumes "distinct (map data_path items)" "k < length items" "hi < length items"
  shows "(data_path (items ! k) \<in> (\<lambda>i. data_path (items ! i)) ` set [lo..<Suc hi])
           = (lo \<le> k \<and> k \<le> hi)"
proof
  assume "data_path (items ! k) \<in> (\<lambda>i. data_path (items ! i)) ` set [lo..<Suc hi]"
  then obtain i where i: "lo \<le> i" "i \<le> hi" and e: "data_path (items ! k) = data_path (items ! i)"
    by auto
  from i assms have "i < length items" by simp
  with assms e have "k = i"
    by (metis length_map nth_eq_iff_index_eq nth_map)
  with i show "lo \<le> k \<and> k \<le> hi" by simp
next
  assume "lo \<le> k \<and> k \<le> hi"
  then have "k \<in> set [lo..<Suc hi]" by (simp del: upt_Suc)
  then show "data_path (items ! k) \<in> (\<lambda>i. data_path (items ! i)) ` set [lo..<Suc hi]"
    by (rule imageI)
qed

lemma selectFileRange_paths:
  assumes "indexOf items target = Some t" "items \<noteq> []"
  shows "selectedFilePaths (selectFileRange fm items target False)
     = fold (\<lambda>i xs. jsset_add xs (data_path (items ! i)))
         [min (case anchorIndexOf (fileAnchorPath fm) items of None \<Rightarrow> t | Some i \<Rightarrow> i) t
          ..<Suc (max (case anchorIndexOf (fileAnchorPath fm) items of None \<Rightarrow> t | Some i \<Rightarrow> i) t)]
         []"
  using assms
  by (simp add: selectFileRange_def Let_def fold_toggle_files clearFileSelection_def)

lemma selectFolderRange_paths:
  assumes "indexOf items target = Some t" "items \<noteq> []"
  shows "selectedFolderPaths (selectFolderRange tp items target False)
     = fold (\<lambda>i xs. jsset_add xs (data_path (items ! i)))
         [min (case anchorIndexOf (treeAnchor tp) items of None \<Rightarrow> t | Some i \<Rightarrow> i) t
          ..<Suc (max (case anchorIndexOf (treeAnchor tp) items of None \<Rightarrow> t | Some i \<Rightarrow> i) t)]
         []"
  using assms
  by (simp add: selectFolderRange_def Let_def fold_add_folders)

lemma anchorIndexOf_resolved:
  assumes "distinct (map data_path items)" "i < length items" "data_path (items ! i) \<noteq> []"
  shows "anchorIndexOf (Some (data_path (items ! i))) items = Some i"
  using assms by (simp add: anchorIndexOf_def findIndex_distinct)

lemma anchorIndexOf_unresolved:
  assumes "\<forall>it \<in> set items. a \<noteq> Some (data_path it)"
  shows "anchorIndexOf a items = None"
  using assms by (auto simp: anchorIndexOf_def findIndex_None split: option.splits)


lemma indexOf_nth:
  "distinct (map el_id items) \<Longrightarrow> t < length items \<Longrightarrow> indexOf items (items ! t) = Some t"
  by (simp add: indexOf_def findIndex_distinct)

lemma range_set_files:
  assumes "distinct (map el_id items)" "t < length items"
  shows "set (selectedFilePaths (selectFileRange fm items (items ! t) False))
     = (\<lambda>i. data_path (items ! i)) `
         {min (case anchorIndexOf (fileAnchorPath fm) items of None \<Rightarrow> t | Some i \<Rightarrow> i) t ..
          max (case anchorIndexOf (fileAnchorPath fm) items of None \<Rightarrow> t | Some i \<Rightarrow> i) t}"
proof -
  from assms have ne: "items \<noteq> []" by auto
  have idx: "indexOf items (items ! t) = Some t"
    using assms by (rule indexOf_nth)
  show ?thesis
    unfolding selectFileRange_paths [OF idx ne] fold_jsset_add_set
    by (simp del: upt_Suc add: atLeastLessThanSuc_atLeastAtMost)
qed

lemma range_set_folders:
  assumes "distinct (map el_id items)" "t < length items"
  shows "set (selectedFolderPaths (selectFolderRange tp items (items ! t) False))
     = (\<lambda>i. data_path (items ! i)) `
         {min (case anchorIndexOf (treeAnchor tp) items of None \<Rightarrow> t | Some i \<Rightarrow> i) t ..
          max (case anchorIndexOf (treeAnchor tp) items of None \<Rightarrow> t | Some i \<Rightarrow> i) t}"
proof -
  from assms have ne: "items \<noteq> []" by auto
  have idx: "indexOf items (items ! t) = Some t"
    using assms by (rule indexOf_nth)
  show ?thesis
    unfolding selectFolderRange_paths [OF idx ne] fold_jsset_add_set
    by (simp del: upt_Suc add: atLeastLessThanSuc_atLeastAtMost)
qed

lemma nth_path_in_interval:
  assumes "distinct (map data_path items)" "k < length items" "hi < length items"
  shows "(data_path (items ! k) \<in> (\<lambda>i. data_path (items ! i)) ` {lo..hi}) = (lo \<le> k \<and> k \<le> hi)"
  using path_in_range [OF assms, of lo]
  by (simp only: set_upt atLeastLessThanSuc_atLeastAtMost)

text \<open>
  C2: \<open>selectFileRange\<close> and \<open>selectFolderRange\<close> without the additive flag, on a
  visible list whose elements and paths are distinct, with the target at index \<open>t\<close>.
  When the anchor path resolves to the visible index \<open>i\<close>, the selection afterwards is
  exactly the set of paths of the items at the indices \<open>min i t\<close> to \<open>max i t\<close>, whatever
  was selected before and whichever of \<open>i\<close> and \<open>t\<close> is larger: the item at index \<open>k\<close> is
  selected if and only if \<open>min i t \<le> k \<le> max i t\<close>. When no visible item carries the
  anchor path, the selection is the target alone.
\<close>

theorem C2_selectRange_closed_interval:
  assumes els: "distinct (map el_id items)"
    and paths: "distinct (map data_path items)"
    and t: "t < length items"
    and k: "k < length items"
  shows "(\<forall>i. i < length items \<and> data_path (items ! i) \<noteq> []
              \<and> fileAnchorPath fm = Some (data_path (items ! i)) \<longrightarrow>
            set (selectedFilePaths (selectFileRange fm items (items ! t) False))
              = (\<lambda>j. data_path (items ! j)) ` {min i t .. max i t}
            \<and> jsset_has (selectedFilePaths (selectFileRange fm items (items ! t) False))
                 (data_path (items ! k)) = (min i t \<le> k \<and> k \<le> max i t))
       \<and> ((\<forall>it \<in> set items. fileAnchorPath fm \<noteq> Some (data_path it)) \<longrightarrow>
            selectedFilePaths (selectFileRange fm items (items ! t) False) = [data_path (items ! t)])
       \<and> (\<forall>i. i < length items \<and> data_path (items ! i) \<noteq> []
              \<and> treeAnchor tp = Some (data_path (items ! i)) \<longrightarrow>
            set (selectedFolderPaths (selectFolderRange tp items (items ! t) False))
              = (\<lambda>j. data_path (items ! j)) ` {min i t .. max i t}
            \<and> jsset_has (selectedFolderPaths (selectFolderRange tp items (items ! t) False))
                 (data_path (items ! k)) = (min i t \<le> k \<and> k \<le> max i t))
       \<and> ((\<forall>it \<in> set items. treeAnchor tp \<noteq> Some (data_path it)) \<longrightarrow>
            selectedFolderPaths (selectFolderRange tp items (items ! t) False)
              = [data_path (items ! t)])"
proof (intro conjI allI impI)
  fix i
  assume h: "i < length items \<and> data_path (items ! i) \<noteq> []
              \<and> fileAnchorPath fm = Some (data_path (items ! i))"
  then have a: "anchorIndexOf (fileAnchorPath fm) items = Some i"
    using anchorIndexOf_resolved [OF paths, of i] by simp
  show s: "set (selectedFilePaths (selectFileRange fm items (items ! t) False))
              = (\<lambda>j. data_path (items ! j)) ` {min i t .. max i t}"
    using range_set_files [OF els t, of fm] a by simp
  have "max i t < length items" using h t by simp
  then show "jsset_has (selectedFilePaths (selectFileRange fm items (items ! t) False))
                 (data_path (items ! k)) = (min i t \<le> k \<and> k \<le> max i t)"
    unfolding jsset_has_def s by (rule nth_path_in_interval [OF paths k])
next
  assume "\<forall>it \<in> set items. fileAnchorPath fm \<noteq> Some (data_path it)"
  then have a: "anchorIndexOf (fileAnchorPath fm) items = None"
    by (rule anchorIndexOf_unresolved)
  from t have "items \<noteq> []" by auto
  then show "selectedFilePaths (selectFileRange fm items (items ! t) False) = [data_path (items ! t)]"
    using selectFileRange_paths [OF indexOf_nth [OF els t], of fm] a
    by (simp add: jsset_add_def)
next
  fix i
  assume h: "i < length items \<and> data_path (items ! i) \<noteq> []
              \<and> treeAnchor tp = Some (data_path (items ! i))"
  then have a: "anchorIndexOf (treeAnchor tp) items = Some i"
    using anchorIndexOf_resolved [OF paths, of i] by simp
  show s: "set (selectedFolderPaths (selectFolderRange tp items (items ! t) False))
              = (\<lambda>j. data_path (items ! j)) ` {min i t .. max i t}"
    using range_set_folders [OF els t, of tp] a by simp
  have "max i t < length items" using h t by simp
  then show "jsset_has (selectedFolderPaths (selectFolderRange tp items (items ! t) False))
                 (data_path (items ! k)) = (min i t \<le> k \<and> k \<le> max i t)"
    unfolding jsset_has_def s by (rule nth_path_in_interval [OF paths k])
next
  assume "\<forall>it \<in> set items. treeAnchor tp \<noteq> Some (data_path it)"
  then have a: "anchorIndexOf (treeAnchor tp) items = None"
    by (rule anchorIndexOf_unresolved)
  from t have "items \<noteq> []" by auto
  then show "selectedFolderPaths (selectFolderRange tp items (items ! t) False)
               = [data_path (items ! t)]"
    using selectFolderRange_paths [OF indexOf_nth [OF els t], of tp] a
    by (simp add: jsset_add_def)
qed


text \<open>Four visible rows; the anchor is the second, the target the fourth or the first.\<close>

definition rows4 :: "item_el list" where
  "rows4 = [\<lparr>el_id = 1, data_path = ''a''\<rparr>, \<lparr>el_id = 2, data_path = ''b''\<rparr>,
            \<lparr>el_id = 3, data_path = ''c''\<rparr>, \<lparr>el_id = 4, data_path = ''d''\<rparr>]"

definition files_anchor_b :: files_pane where
  "files_anchor_b =
     \<lparr>selectedFilePaths = [''a'', ''zzz''], selectionAnchorPath = Some ''b'',
      selectedListItem = None\<rparr>"

definition tree_anchor_b :: tree_pane where
  "tree_anchor_b =
     \<lparr>selectedFolderPaths = [''a'', ''zzz''], treeAnchorPath = Some ''b'',
      selectedTreeItem = None, expandedFolders = []\<rparr>"

theorem C2_selectRange_closed_interval_witness:
  "selectedFilePaths (selectFileRange files_anchor_b rows4 (rows4 ! 3) False) = [''b'', ''c'', ''d'']
   \<and> selectedFilePaths (selectFileRange files_anchor_b rows4 (rows4 ! 0) False) = [''a'', ''b'']
   \<and> jsset_has (selectedFilePaths (selectFileRange files_anchor_b rows4 (rows4 ! 3) False)) ''c''
   \<and> selectedFilePaths
        (selectFileRange (files_anchor_b\<lparr>selectionAnchorPath := Some ''gone''\<rparr>) rows4 (rows4 ! 3) False)
       = [''d'']
   \<and> selectedFolderPaths (selectFolderRange tree_anchor_b rows4 (rows4 ! 3) False)
       = [''b'', ''c'', ''d'']
   \<and> jsset_has (selectedFolderPaths (selectFolderRange tree_anchor_b rows4 (rows4 ! 3) False)) ''c''
   \<and> selectedFolderPaths
        (selectFolderRange (tree_anchor_b\<lparr>treeAnchorPath := None\<rparr>) rows4 (rows4 ! 3) False)
       = [''d'']"
  using C2_selectRange_closed_interval [of rows4 3 2 files_anchor_b tree_anchor_b]
    C2_selectRange_closed_interval
      [of rows4 3 2 "files_anchor_b\<lparr>selectionAnchorPath := Some ''gone''\<rparr>"
          "tree_anchor_b\<lparr>treeAnchorPath := None\<rparr>"]
  by (simp add: rows4_def files_anchor_b_def tree_anchor_b_def selectFileRange_def
      selectFolderRange_def indexOf_def anchorIndexOf_def fileAnchorPath_def treeAnchor_def
      js_or_def truthy_def clearFileSelection_def toggleFileSelected_def jsset_add_def
      jsset_has_def Let_def upt_rec)

section \<open>The bulk operation runner\<close>

text \<open>
  \<open>runBulkOperation({label, items, onItem})\<close> awaits \<open>onItem(items[i], i)\<close> for
  \<open>i = 0, 1, ...\<close> in a \<open>for\<close> loop inside \<open>try ... finally\<close>. An operation is a
  function of the item, its index and the world; it returns the world it leaves and,
  when it throws, the error. The runner's result carries the error that escaped (if
  any), the world, the items whose operation was started, in order, and the calls to
  \<open>showBulkProgress\<close> and \<open>hideBulkProgress\<close>.
\<close>

datatype ui_event = ShowBulkProgress nat nat | HideBulkProgress

type_synonym ('a, 'w, 'e) item_op = "'a \<Rightarrow> nat \<Rightarrow> 'w \<Rightarrow> 'e option \<times> 'w"

record ('a, 'w, 'e) bulk_result =
  thrown :: "'e option"
  world :: 'w
  started :: "'a list"
  shown :: "ui_event list"

fun bulk_loop ::
  "('a, 'w, 'e) item_op \<Rightarrow> bool \<Rightarrow> nat \<Rightarrow> nat \<Rightarrow> 'a list \<Rightarrow> ('a, 'w, 'e) bulk_result
     \<Rightarrow> ('a, 'w, 'e) bulk_result" where
  "bulk_loop onItem isBulk tot i [] r = r"
| "bulk_loop onItem isBulk tot i (x # xs) r =
     (case onItem x i (world r) of
        (Some e, w') \<Rightarrow> r\<lparr>thrown := Some e, world := w', started := started r @ [x]\<rparr>
      | (None, w') \<Rightarrow>
          bulk_loop onItem isBulk tot (Suc i) xs
            (r\<lparr>world := w', started := started r @ [x],
               shown := (if isBulk then shown r @ [ShowBulkProgress (Suc i) tot]
                         else shown r)\<rparr>))"

definition runBulkOperation ::
  "('a, 'w, 'e) item_op \<Rightarrow> 'a list \<Rightarrow> 'w \<Rightarrow> ('a, 'w, 'e) bulk_result" where
  "runBulkOperation onItem items w =
     (let tot = length items in
      if tot = 0 then \<lparr>thrown = None, world = w, started = [], shown = []\<rparr>
      else
        (let isBulk = (tot > 1);
             r0 = \<lparr>thrown = None, world = w, started = [],
                   shown = (if isBulk then [ShowBulkProgress 0 tot] else [])\<rparr>;
             r = bulk_loop onItem isBulk tot 0 items r0
         in if isBulk then r\<lparr>shown := shown r @ [HideBulkProgress]\<rparr> else r))"

text \<open>
  The operations of a list all complete, one after the other from index \<open>i\<close> and world
  \<open>w\<close>, and leave the world \<open>w'\<close>: \<open>completes onItem i xs w = Some w'\<close>.
\<close>

fun completes :: "('a, 'w, 'e) item_op \<Rightarrow> nat \<Rightarrow> 'a list \<Rightarrow> 'w \<Rightarrow> 'w option" where
  "completes onItem i [] w = Some w"
| "completes onItem i (x # xs) w =
     (case onItem x i w of
        (Some e, w') \<Rightarrow> None
      | (None, w') \<Rightarrow> completes onItem (Suc i) xs w')"

lemma bulk_loop_fails:
  assumes "completes onItem i pre (world r) = Some w1"
    and "onItem x (i + length pre) w1 = (Some e, w2)"
  shows "bulk_loop onItem isBulk tot i (pre @ x # post) r
     = r\<lparr>thrown := Some e, world := w2, started := started r @ pre @ [x],
          shown := (if isBulk
                    then shown r @ map (\<lambda>j. ShowBulkProgress j tot) [Suc i..<Suc (i + length pre)]
                    else shown r)\<rparr>"
  using assms
proof (induction pre arbitrary: i r)
  case Nil
  then show ?case by simp
next
  case (Cons y pre)
  from Cons.prems(1) obtain w' where y: "onItem y i (world r) = (None, w')"
    and rest: "completes onItem (Suc i) pre w' = Some w1"
    by (auto split: prod.splits option.splits)
  let ?r = "r\<lparr>world := w', started := started r @ [y],
               shown := (if isBulk then shown r @ [ShowBulkProgress (Suc i) tot]
                         else shown r)\<rparr>"
  have "bulk_loop onItem isBulk tot (Suc i) (pre @ x # post) ?r
     = ?r\<lparr>thrown := Some e, world := w2, started := started ?r @ pre @ [x],
          shown := (if isBulk
                    then shown ?r @ map (\<lambda>j. ShowBulkProgress j tot)
                                      [Suc (Suc i)..<Suc (Suc i + length pre)]
                    else shown ?r)\<rparr>"
    using rest Cons.prems(2) by (intro Cons.IH) simp_all
  then show ?case
    using y by (simp add: upt_conv_Cons del: upt_Suc)
qed

lemma bulk_loop_completes:
  assumes "completes onItem i xs (world r) = Some w1"
  shows "bulk_loop onItem isBulk tot i xs r
     = r\<lparr>world := w1, started := started r @ xs,
          shown := (if isBulk
                    then shown r @ map (\<lambda>j. ShowBulkProgress j tot) [Suc i..<Suc (i + length xs)]
                    else shown r)\<rparr>"
  using assms
proof (induction xs arbitrary: i r)
  case Nil
  then show ?case by simp
next
  case (Cons y xs)
  from Cons.prems obtain w' where y: "onItem y i (world r) = (None, w')"
    and rest: "completes onItem (Suc i) xs w' = Some w1"
    by (auto split: prod.splits option.splits)
  let ?r = "r\<lparr>world := w', started := started r @ [y],
               shown := (if isBulk then shown r @ [ShowBulkProgress (Suc i) tot]
                         else shown r)\<rparr>"
  have "bulk_loop onItem isBulk tot (Suc i) xs ?r
     = ?r\<lparr>world := w1, started := started ?r @ xs,
          shown := (if isBulk
                    then shown ?r @ map (\<lambda>j. ShowBulkProgress j tot)
                                      [Suc (Suc i)..<Suc (Suc i + length xs)]
                    else shown ?r)\<rparr>"
    using rest by (intro Cons.IH) simp
  then show ?case
    using y by (simp add: upt_conv_Cons del: upt_Suc)
qed


section \<open>Deleting the selected files\<close>

text \<open>
  The remote service is outside the sources. It is modelled by the list of paths it
  holds and by \<open>refuses\<close>, which gives the error a delete request for a path is
  answered with, if any. An error carries the \<open>error\<close> text of its \<open>data\<close>, when it
  has one.
\<close>

datatype api_error = ApiError "string option"

datatype api_call =
    DeleteFile string
  | DeleteFolder string bool
  | RenameFile string string
  | RenameFolder string string bool

record app_world =
  remote_paths :: "string list"
  api_calls :: "api_call list"
  currentPath :: string
  currentFile :: "string option"
  listed_files :: "string list"
  status_shown :: "string list"

text \<open>The \<open>onItem\<close> of \<open>deleteSelectedFiles\<close>: \<open>API.deleteFile(path)\<close>, then the reset of
  the open file when it was the deleted one.\<close>

definition deleteFile_op :: "(string \<Rightarrow> api_error option) \<Rightarrow> (string, app_world, api_error) item_op" where
  "deleteFile_op refuses path i w =
     (let w1 = w\<lparr>api_calls := api_calls w @ [DeleteFile path]\<rparr> in
      case refuses path of
        Some err \<Rightarrow> (Some err, w1)
      | None \<Rightarrow>
          (None, w1\<lparr>remote_paths := removeAll path (remote_paths w1),
                     currentFile := (if currentFile w1 = Some path then None else currentFile w1)\<rparr>))"

definition error_message :: "api_error \<Rightarrow> string \<Rightarrow> string" where
  "error_message err fallback =
     (case err of ApiError None \<Rightarrow> fallback
      | ApiError (Some m) \<Rightarrow> if m = [] then fallback else m)"

text \<open>
  \<open>deleteSelectedFiles\<close> from the confirmed dialog on: the bulk run; on an error one
  \<open>showStatus\<close> and return; otherwise the list is loaded again.
\<close>

definition deleteSelectedFiles_confirmed ::
  "(string \<Rightarrow> api_error option) \<Rightarrow> string list \<Rightarrow> app_world \<Rightarrow> app_world" where
  "deleteSelectedFiles_confirmed refuses selectedPaths w =
     (let r = runBulkOperation (deleteFile_op refuses) selectedPaths w in
      case thrown r of
        Some err \<Rightarrow>
          (world r)\<lparr>status_shown := status_shown (world r) @ [error_message err ''Error deleting file'']\<rparr>
      | None \<Rightarrow> (world r)\<lparr>listed_files := remote_paths (world r)\<rparr>)"

lemma completes_deleteFile:
  "\<forall>p \<in> set pre. refuses p = None \<Longrightarrow>
   \<exists>w1. completes (deleteFile_op refuses) i pre w = Some w1
      \<and> remote_paths w1 = filter (\<lambda>p. p \<notin> set pre) (remote_paths w)
      \<and> api_calls w1 = api_calls w @ map DeleteFile pre
      \<and> status_shown w1 = status_shown w
      \<and> listed_files w1 = listed_files w"
proof (induction pre arbitrary: i w)
  case Nil
  then show ?case by simp
next
  case (Cons x pre)
  let ?w = "w\<lparr>api_calls := api_calls w @ [DeleteFile x],
              remote_paths := removeAll x (remote_paths w),
              currentFile := (if currentFile w = Some x then None else currentFile w)\<rparr>"
  from Cons.prems have x: "refuses x = None" and pre: "\<forall>p \<in> set pre. refuses p = None"
    by simp_all
  from Cons.IH [OF pre, of "Suc i" ?w] obtain w1 where
    w1: "completes (deleteFile_op refuses) (Suc i) pre ?w = Some w1"
     "remote_paths w1 = filter (\<lambda>p. p \<notin> set pre) (remote_paths ?w)"
     "api_calls w1 = api_calls ?w @ map DeleteFile pre"
     "status_shown w1 = status_shown ?w" "listed_files w1 = listed_files ?w"
    by blast
  have "filter (\<lambda>p. p \<notin> set pre) (removeAll x (remote_paths w))
      = filter (\<lambda>p. p \<notin> set (x # pre)) (remote_paths w)"
    by (auto simp: removeAll_filter_not_eq intro!: filter_cong)
  moreover have "deleteFile_op refuses x i w = (None, ?w)"
    using x by (simp add: deleteFile_op_def Let_def)
  ultimately show ?case
    using w1 by (intro exI [of _ w1]) simp
qed

lemma upt_from_0: "[0..<Suc m] = 0 # [Suc 0..<Suc m]"
  by (simp add: upt_conv_Cons del: upt_Suc)

lemma run_unfold:
  "items \<noteq> [] \<Longrightarrow>
   runBulkOperation onItem items w
     = (let isBulk = (length items > 1);
            r = bulk_loop onItem isBulk (length items) 0 items
                  \<lparr>thrown = None, world = w, started = [],
                   shown = (if isBulk then [ShowBulkProgress 0 (length items)] else [])\<rparr>
        in if isBulk then r\<lparr>shown := shown r @ [HideBulkProgress]\<rparr> else r)"
  by (simp add: runBulkOperation_def Let_def)

lemma run_fails:
  assumes c: "completes onItem 0 pre w = Some w1"
    and f: "onItem x (length pre) w1 = (Some e, w2)"
  shows "runBulkOperation onItem (pre @ x # post) w
        = \<lparr>thrown = Some e, world = w2, started = pre @ [x],
           shown = (if length (pre @ x # post) > 1
                    then map (\<lambda>j. ShowBulkProgress j (length (pre @ x # post))) [0..<Suc (length pre)]
                         @ [HideBulkProgress]
                    else [])\<rparr>"
proof -
  have loop: "bulk_loop onItem isBulk n 0 (pre @ x # post)
        \<lparr>thrown = None, world = w, started = [], shown = sh\<rparr>
     = \<lparr>thrown = Some e, world = w2, started = pre @ [x],
        shown = (if isBulk then sh @ map (\<lambda>j. ShowBulkProgress j n) [Suc 0..<Suc (length pre)]
                 else sh)\<rparr>" for isBulk n sh
    using bulk_loop_fails
      [of onItem 0 pre "\<lparr>thrown = None, world = w, started = [], shown = sh\<rparr>" w1 x e w2 isBulk n post]
      c f
    by simp
  have ne: "pre @ x # post \<noteq> []" by simp
  show ?thesis
    unfolding run_unfold [OF ne] Let_def loop
    by (simp add: upt_from_0 del: upt_Suc)
qed

lemma run_completes:
  assumes c: "completes onItem 0 items w = Some w1"
  shows "runBulkOperation onItem items w
        = \<lparr>thrown = None, world = w1, started = items,
           shown = (if length items > 1
                    then map (\<lambda>j. ShowBulkProgress j (length items)) [0..<Suc (length items)]
                         @ [HideBulkProgress]
                    else [])\<rparr>"
proof (cases "items = []")
  case True
  with c show ?thesis by (simp add: runBulkOperation_def)
next
  case False
  have loop: "bulk_loop onItem isBulk n 0 items \<lparr>thrown = None, world = w, started = [], shown = sh\<rparr>
     = \<lparr>thrown = None, world = w1, started = items,
        shown = (if isBulk then sh @ map (\<lambda>j. ShowBulkProgress j n) [Suc 0..<Suc (length items)]
                 else sh)\<rparr>" for isBulk n sh
    using bulk_loop_completes
      [of onItem 0 items "\<lparr>thrown = None, world = w, started = [], shown = sh\<rparr>" w1 isBulk n] c
    by simp
  show ?thesis
    unfolding run_unfold [OF False] Let_def loop
    by (simp add: upt_from_0 del: upt_Suc)
qed

text \<open>
  C5: the bulk runner. If the operations of the items \<open>pre\<close> complete one after the
  other and the operation of the next item \<open>x\<close> throws \<open>e\<close>, the run ends with that one
  error, the operations started are exactly those of \<open>pre\<close> and of \<open>x\<close>, in list order
  (none of the later items \<open>post\<close>), and the world is the one the completed operations
  and the failing one left: nothing is undone. If all operations complete, every
  item's operation was started, in list order. Each operation receives the world its
  predecessor returned. Progress is shown only for more than one item. For
  \<open>deleteSelectedFiles\<close>: when the deletes of \<open>pre'\<close> are accepted and the delete of \<open>b\<close>
  is refused, the remote service has lost exactly the files of \<open>pre'\<close>, the delete
  requests sent are those for \<open>pre'\<close> and \<open>b\<close>, and one error status is shown.
\<close>

theorem C5_bulk_runner:
  "(completes onItem 0 pre w = Some w1 \<and> onItem x (length pre) w1 = (Some e, w2) \<longrightarrow>
      runBulkOperation onItem (pre @ x # post) w
        = \<lparr>thrown = Some e, world = w2, started = pre @ [x],
           shown = (if length (pre @ x # post) > 1
                    then map (\<lambda>j. ShowBulkProgress j (length (pre @ x # post))) [0..<Suc (length pre)]
                         @ [HideBulkProgress]
                    else [])\<rparr>)
   \<and> (completes onItem 0 items w = Some w1 \<longrightarrow>
      runBulkOperation onItem items w
        = \<lparr>thrown = None, world = w1, started = items,
           shown = (if length items > 1
                    then map (\<lambda>j. ShowBulkProgress j (length items)) [0..<Suc (length items)]
                         @ [HideBulkProgress]
                    else [])\<rparr>)
   \<and> ((\<forall>p \<in> set pre'. refuses p = None) \<and> refuses b = Some err \<longrightarrow>
      remote_paths (deleteSelectedFiles_confirmed refuses (pre' @ b # post') fw)
        = filter (\<lambda>p. p \<notin> set pre') (remote_paths fw)
      \<and> api_calls (deleteSelectedFiles_confirmed refuses (pre' @ b # post') fw)
        = api_calls fw @ map DeleteFile pre' @ [DeleteFile b]
      \<and> status_shown (deleteSelectedFiles_confirmed refuses (pre' @ b # post') fw)
        = status_shown fw @ [error_message err ''Error deleting file''])"
proof (intro conjI impI)
  assume "completes onItem 0 pre w = Some w1 \<and> onItem x (length pre) w1 = (Some e, w2)"
  then show "runBulkOperation onItem (pre @ x # post) w
        = \<lparr>thrown = Some e, world = w2, started = pre @ [x],
           shown = (if length (pre @ x # post) > 1
                    then map (\<lambda>j. ShowBulkProgress j (length (pre @ x # post))) [0..<Suc (length pre)]
                         @ [HideBulkProgress]
                    else [])\<rparr>"
    by (intro run_fails) (erule conjunct1, erule conjunct2)
next
  assume "completes onItem 0 items w = Some w1"
  then show "runBulkOperation onItem items w
        = \<lparr>thrown = None, world = w1, started = items,
           shown = (if length items > 1
                    then map (\<lambda>j. ShowBulkProgress j (length items)) [0..<Suc (length items)]
                         @ [HideBulkProgress]
                    else [])\<rparr>"
    by (rule run_completes)
next
  assume h: "(\<forall>p \<in> set pre'. refuses p = None) \<and> refuses b = Some err"
  then obtain w1 where
    w1: "completes (deleteFile_op refuses) 0 pre' fw = Some w1"
     "remote_paths w1 = filter (\<lambda>p. p \<notin> set pre') (remote_paths fw)"
     "api_calls w1 = api_calls fw @ map DeleteFile pre'"
     "status_shown w1 = status_shown fw"
    using completes_deleteFile [of pre' refuses 0 fw] by blast
  have b: "deleteFile_op refuses b (length pre') w1
             = (Some err, w1\<lparr>api_calls := api_calls w1 @ [DeleteFile b]\<rparr>)"
    using h by (simp add: deleteFile_op_def Let_def)
  note run = run_fails [OF w1(1) b, of post']
  show "remote_paths (deleteSelectedFiles_confirmed refuses (pre' @ b # post') fw)
        = filter (\<lambda>p. p \<notin> set pre') (remote_paths fw)"
    unfolding deleteSelectedFiles_confirmed_def run using w1 by (simp add: Let_def)
  show "api_calls (deleteSelectedFiles_confirmed refuses (pre' @ b # post') fw)
        = api_calls fw @ map DeleteFile pre' @ [DeleteFile b]"
    unfolding deleteSelectedFiles_confirmed_def run using w1 by (simp add: Let_def)
  show "status_shown (deleteSelectedFiles_confirmed refuses (pre' @ b # post') fw)
        = status_shown fw @ [error_message err ''Error deleting file'']"
    unfolding deleteSelectedFiles_confirmed_def run using w1 by (simp add: Let_def)
qed


text \<open>
  The scenario of the spec: the files \<open>a\<close>, \<open>b\<close>, \<open>c\<close> are deleted and the remote service
  refuses \<open>b\<close>.
\<close>

definition refuses_b :: "string \<Rightarrow> api_error option" where
  "refuses_b p = (if p = ''b'' then Some (ApiError (Some ''Permission denied'')) else None)"

definition world_abcd :: app_world where
  "world_abcd =
     \<lparr>remote_paths = [''a'', ''b'', ''c'', ''d''], api_calls = [], currentPath = [],
      currentFile = Some ''a'', listed_files = [''a'', ''b'', ''c'', ''d''], status_shown = []\<rparr>"

theorem C5_bulk_runner_witness:
  "runBulkOperation (deleteFile_op refuses_b) [''a'', ''b'', ''c''] world_abcd
     = \<lparr>thrown = Some (ApiError (Some ''Permission denied'')),
        world = world_abcd\<lparr>remote_paths := [''b'', ''c'', ''d''],
                  api_calls := [DeleteFile ''a'', DeleteFile ''b''], currentFile := None\<rparr>,
        started = [''a'', ''b''],
        shown = [ShowBulkProgress 0 3, ShowBulkProgress 1 3, HideBulkProgress]\<rparr>
   \<and> runBulkOperation (deleteFile_op refuses_b) [''a''] world_abcd
     = \<lparr>thrown = None,
        world = world_abcd\<lparr>remote_paths := [''b'', ''c'', ''d''],
                  api_calls := [DeleteFile ''a''], currentFile := None\<rparr>,
        started = [''a''], shown = []\<rparr>
   \<and> remote_paths (deleteSelectedFiles_confirmed refuses_b [''a'', ''b'', ''c''] world_abcd)
     = [''b'', ''c'', ''d'']
   \<and> api_calls (deleteSelectedFiles_confirmed refuses_b [''a'', ''b'', ''c''] world_abcd)
     = [DeleteFile ''a'', DeleteFile ''b'']
   \<and> status_shown (deleteSelectedFiles_confirmed refuses_b [''a'', ''b'', ''c''] world_abcd)
     = [''Permission denied'']"
  using C5_bulk_runner
      [where onItem = "deleteFile_op refuses_b" and pre = "[''a'']" and w = world_abcd
         and ?w1.0 = "world_abcd\<lparr>remote_paths := [''b'', ''c'', ''d''],
                  api_calls := [DeleteFile ''a''], currentFile := None\<rparr>"
         and x = "''b''" and e = "ApiError (Some ''Permission denied'')"
         and ?w2.0 = "world_abcd\<lparr>remote_paths := [''b'', ''c'', ''d''],
                  api_calls := [DeleteFile ''a'', DeleteFile ''b''], currentFile := None\<rparr>"
         and post = "[''c'']" and items = "[''a'']"
         and pre' = "[''a'']" and refuses = refuses_b and b = "''b''"
         and err = "ApiError (Some ''Permission denied'')" and post' = "[''c'']"
         and fw = world_abcd]
  by (simp add: deleteFile_op_def refuses_b_def world_abcd_def Let_def error_message_def)

section \<open>Deleting the selected folders\<close>

text \<open>
  \<open>deleteSelectedFolders\<close>. The selected paths are the members of
  \<open>selectedFolderPaths\<close> in insertion order, or the selected tree item alone when that
  set is empty. \<open>roots\<close> keeps the selected paths that do not start with another
  selected path followed by \<open>'/'\<close>. The preview is built next (its walk can be
  cancelled), then the confirmation is asked for; after it the bulk runner sends
  \<open>API.deleteFolder(path, false)\<close> for the roots. What the remote service does with
  a request is not modelled beyond the answer \<open>refuses\<close> gives.
\<close>

definition selectedPathsOf :: "tree_pane \<Rightarrow> string list" where
  "selectedPathsOf tp =
     (if selectedFolderPaths tp \<noteq> [] then selectedFolderPaths tp
      else case selectedTreeItem tp of None \<Rightarrow> [] | Some ti \<Rightarrow> [dataset_path ti])"

definition deleteRoots :: "string list \<Rightarrow> string list" where
  "deleteRoots selectedPaths =
     filter (\<lambda>p. \<not> list_ex (\<lambda>other. other \<noteq> p \<and> startsWith p (other @ ''/'')) selectedPaths)
       selectedPaths"

definition deleteFolder_op ::
  "(string \<Rightarrow> api_error option) \<Rightarrow> (string, app_world, api_error) item_op" where
  "deleteFolder_op refuses path i w =
     (let w1 = w\<lparr>api_calls := api_calls w @ [DeleteFolder path False]\<rparr> in
      case refuses path of
        Some err \<Rightarrow> (Some err, w1)
      | None \<Rightarrow>
          (None,
           w1\<lparr>currentPath :=
                 (if currentPath w1 \<noteq> [] \<and> isAncestor path (currentPath w1) then []
                  else currentPath w1),
               currentFile :=
                 (case currentFile w1 of
                    None \<Rightarrow> None
                  | Some f \<Rightarrow> if f \<noteq> [] \<and> isAncestor path f then None else Some f)\<rparr>))"

definition deleteSelectedFolders ::
  "tree_pane \<Rightarrow> bool \<Rightarrow> bool \<Rightarrow> (string \<Rightarrow> api_error option) \<Rightarrow> app_world \<Rightarrow> app_world" where
  "deleteSelectedFolders tp previewCancelled ok refuses w =
     (let selectedPaths = selectedPathsOf tp in
      if selectedPaths = [] then w
      else
        (let roots = deleteRoots selectedPaths in
         if previewCancelled then w
         else if \<not> ok then w
         else
           (let r = runBulkOperation (deleteFolder_op refuses) roots w in
            case thrown r of
              Some err \<Rightarrow>
                (world r)\<lparr>status_shown :=
                   status_shown (world r) @ [error_message err ''Error deleting folder'']\<rparr>
            | None \<Rightarrow> world r)))"

text \<open>The delete requests a run adds to those sent before it.\<close>

definition new_calls :: "app_world \<Rightarrow> app_world \<Rightarrow> api_call list" where
  "new_calls w w' = drop (length (api_calls w)) (api_calls w')"

lemma completes_deleteFolder:
  "\<forall>p \<in> set pre. refuses p = None \<Longrightarrow>
   \<exists>w1. completes (deleteFolder_op refuses) i pre w = Some w1
      \<and> api_calls w1 = api_calls w @ map (\<lambda>p. DeleteFolder p False) pre"
proof (induction pre arbitrary: i w)
  case Nil
  then show ?case by simp
next
  case (Cons x pre)
  from Cons.prems have x: "refuses x = None" and pre: "\<forall>p \<in> set pre. refuses p = None"
    by simp_all
  obtain w' where step: "deleteFolder_op refuses x i w = (None, w')"
    and calls: "api_calls w' = api_calls w @ [DeleteFolder x False]"
    using x by (simp add: deleteFolder_op_def Let_def)
  from Cons.IH [OF pre, of "Suc i" w'] obtain w1 where
    "completes (deleteFolder_op refuses) (Suc i) pre w' = Some w1"
    "api_calls w1 = api_calls w' @ map (\<lambda>p. DeleteFolder p False) pre"
    by blast
  with step calls show ?case
    by (intro exI [of _ w1]) simp
qed

lemma folder_calls_all_accepted:
  assumes "\<forall>p \<in> set roots. refuses p = None"
  shows "api_calls (world (runBulkOperation (deleteFolder_op refuses) roots w))
           = api_calls w @ map (\<lambda>p. DeleteFolder p False) roots"
    and "thrown (runBulkOperation (deleteFolder_op refuses) roots w) = None"
proof -
  from completes_deleteFolder [OF assms, of 0 w] obtain w1 where
    w1: "completes (deleteFolder_op refuses) 0 roots w = Some w1"
      "api_calls w1 = api_calls w @ map (\<lambda>p. DeleteFolder p False) roots"
    by blast
  show "api_calls (world (runBulkOperation (deleteFolder_op refuses) roots w))
           = api_calls w @ map (\<lambda>p. DeleteFolder p False) roots"
    unfolding run_completes [OF w1(1)] using w1(2) by simp
  show "thrown (runBulkOperation (deleteFolder_op refuses) roots w) = None"
    unfolding run_completes [OF w1(1)] by simp
qed

lemma folder_calls_refused:
  assumes "\<forall>p \<in> set pre. refuses p = None" and "refuses x = Some err"
  shows "api_calls (world (runBulkOperation (deleteFolder_op refuses) (pre @ x # post) w))
           = api_calls w @ map (\<lambda>p. DeleteFolder p False) (pre @ [x])"
    and "thrown (runBulkOperation (deleteFolder_op refuses) (pre @ x # post) w) = Some err"
proof -
  from completes_deleteFolder [OF assms(1), of 0 w] obtain w1 where
    w1: "completes (deleteFolder_op refuses) 0 pre w = Some w1"
      "api_calls w1 = api_calls w @ map (\<lambda>p. DeleteFolder p False) pre"
    by blast
  have x: "deleteFolder_op refuses x (length pre) w1
             = (Some err, w1\<lparr>api_calls := api_calls w1 @ [DeleteFolder x False]\<rparr>)"
    using assms(2) by (simp add: deleteFolder_op_def Let_def)
  show "api_calls (world (runBulkOperation (deleteFolder_op refuses) (pre @ x # post) w))
           = api_calls w @ map (\<lambda>p. DeleteFolder p False) (pre @ [x])"
    unfolding run_fails [OF w1(1) x] using w1(2) by simp
  show "thrown (runBulkOperation (deleteFolder_op refuses) (pre @ x # post) w) = Some err"
    unfolding run_fails [OF w1(1) x] by simp
qed

lemma take_through_all:
  assumes "\<forall>p \<in> set xs. P p"
  shows "take (Suc (length (takeWhile P xs))) xs = xs"
proof -
  from assms have "takeWhile P xs = xs"
    by (simp add: takeWhile_eq_all_conv)
  then show ?thesis
    by (simp del: takeWhile_eq_all_conv)
qed

lemma folder_calls_exact:
  "api_calls (world (runBulkOperation (deleteFolder_op refuses) roots w))
     = api_calls w @ map (\<lambda>p. DeleteFolder p False)
         (take (Suc (length (takeWhile (\<lambda>p. refuses p = None) roots))) roots)"
proof (cases "\<forall>p \<in> set roots. refuses p = None")
  case True
  then have "take (Suc (length (takeWhile (\<lambda>p. refuses p = None) roots))) roots = roots"
    by (rule take_through_all)
  then show ?thesis
    using folder_calls_all_accepted(1) [OF True, of w] by (simp only:)
next
  case False
  let ?pre = "takeWhile (\<lambda>p. refuses p = None) roots"
  let ?rest = "dropWhile (\<lambda>p. refuses p = None) roots"
  from False have "?rest \<noteq> []" by auto
  then obtain x post where rest: "?rest = x # post"
    by (cases ?rest) auto
  from \<open>?rest \<noteq> []\<close> have "\<not> (refuses (hd ?rest) = None)"
    by (rule hd_dropWhile)
  then have "refuses x \<noteq> None"
    unfolding rest by simp
  then obtain err where x: "refuses x = Some err" by auto
  have pre: "\<forall>p \<in> set ?pre. refuses p = None"
    by (auto dest: set_takeWhileD)
  have "roots = ?pre @ ?rest" by simp
  then have split: "roots = ?pre @ x # post"
    unfolding rest .
  have "take (Suc (length ?pre)) (?pre @ x # post) = ?pre @ [x]"
    by simp
  then have "take (Suc (length ?pre)) roots = ?pre @ [x]"
    using split by simp
  moreover have "api_calls (world (runBulkOperation (deleteFolder_op refuses) roots w))
      = api_calls w @ map (\<lambda>p. DeleteFolder p False) (?pre @ [x])"
    using folder_calls_refused(1) [OF pre x, of post w] split by simp
  ultimately show ?thesis by simp
qed

lemma world_of_confirmed:
  "selectedPathsOf tp \<noteq> [] \<Longrightarrow>
   api_calls (deleteSelectedFolders tp False True refuses w)
     = api_calls (world (runBulkOperation (deleteFolder_op refuses)
                           (deleteRoots (selectedPathsOf tp)) w))"
  by (simp add: deleteSelectedFolders_def Let_def split: option.splits)

lemma confirmed_nothing_selected:
  "selectedPathsOf tp = [] \<Longrightarrow> deleteSelectedFolders tp False True refuses w = w"
  by (simp add: deleteSelectedFolders_def)

lemma set_deleteRoots:
  "set (deleteRoots sel)
     = {p \<in> set sel. \<not> (\<exists>other \<in> set sel. other \<noteq> p \<and> startsWith p (other @ ''/''))}"
  by (auto simp: deleteRoots_def list_ex_iff)


lemma new_calls_confirmed:
  "new_calls w (deleteSelectedFolders tp False True refuses w)
     = drop (length (api_calls w))
         (api_calls (world (runBulkOperation (deleteFolder_op refuses)
                              (deleteRoots (selectedPathsOf tp)) w)))"
proof (cases "selectedPathsOf tp = []")
  case True
  then show ?thesis
    by (simp add: new_calls_def confirmed_nothing_selected deleteRoots_def runBulkOperation_def)
next
  case False
  then show ?thesis
    by (simp add: new_calls_def world_of_confirmed)
qed

lemma count_delete_request:
  "distinct xs \<Longrightarrow> A \<in> set xs \<Longrightarrow>
   count_list (map (\<lambda>p. DeleteFolder p False) xs) (DeleteFolder A False) = 1"
proof (induction xs)
  case Nil
  then show ?case by simp
next
  case (Cons x xs)
  show ?case
  proof (cases "x = A")
    case True
    with Cons.prems have "DeleteFolder A False \<notin> set (map (\<lambda>p. DeleteFolder p False) xs)"
      by auto
    then have "count_list (map (\<lambda>p. DeleteFolder p False) xs) (DeleteFolder A False) = 0"
      by (rule count_notin)
    with True show ?thesis by simp
  next
    case False
    with Cons show ?thesis by simp
  qed
qed

definition tree_nested3 :: tree_pane where
  "tree_nested3 =
     \<lparr>selectedFolderPaths = [''c'', ''c/a'', ''c/a/b''], treeAnchorPath = None,
      selectedTreeItem = None, expandedFolders = []\<rparr>"

definition tree_x_a_ab :: tree_pane where
  "tree_x_a_ab =
     \<lparr>selectedFolderPaths = [''x'', ''a'', ''a/b''], treeAnchorPath = None,
      selectedTreeItem = None, expandedFolders = []\<rparr>"

definition refuses_x :: "string \<Rightarrow> api_error option" where
  "refuses_x p = (if p = ''x'' then Some (ApiError (Some ''Permission denied'')) else None)"

definition accepts_all :: "string \<Rightarrow> api_error option" where
  "accepts_all p = None"

text \<open>
  C6, as stated, fails in two ways. With \<open>c\<close>, \<open>c/a\<close> and \<open>c/a/b\<close> selected, \<open>c/a\<close> is a
  selected folder with the selected folder \<open>c/a/b\<close> strictly under it, and the
  confirmed delete sends no request for \<open>c/a\<close> (one for \<open>c\<close> only). With \<open>x\<close>, \<open>a\<close> and
  \<open>a/b\<close> selected and the delete of \<open>x\<close> refused, the run stops after the request for
  \<open>x\<close>: none is sent for \<open>a\<close>.
\<close>

theorem C6_counterexample:
  "jsset_has (selectedFolderPaths tree_nested3) ''c/a''
   \<and> jsset_has (selectedFolderPaths tree_nested3) ''c/a/b''
   \<and> startsWith ''c/a/b'' (''c/a'' @ ''/'')
   \<and> new_calls world_abcd (deleteSelectedFolders tree_nested3 False True accepts_all world_abcd)
       = [DeleteFolder ''c'' False]
   \<and> jsset_has (selectedFolderPaths tree_x_a_ab) ''a''
   \<and> jsset_has (selectedFolderPaths tree_x_a_ab) ''a/b''
   \<and> startsWith ''a/b'' (''a'' @ ''/'')
   \<and> new_calls world_abcd (deleteSelectedFolders tree_x_a_ab False True refuses_x world_abcd)
       = [DeleteFolder ''x'' False]"
  by (simp add: tree_nested3_def tree_x_a_ab_def jsset_has_def startsWith_def new_calls_def
      deleteSelectedFolders_def selectedPathsOf_def deleteRoots_def runBulkOperation_def
      deleteFolder_op_def accepts_all_def refuses_x_def world_abcd_def Let_def)

text \<open>
  C6, amended. For a confirmed delete of the selected folders (distinct paths, as the
  members of a set are): the roots are exactly the selected paths that do not start
  with another selected path followed by \<open>'/'\<close>; the delete requests sent are those
  for the roots, in order, one each, up to and including the first root whose request
  the remote service refuses, and none after it (all the roots when it refuses none);
  so if \<open>A\<close> and \<open>B\<close> are selected and \<open>B\<close> starts with \<open>A + '/'\<close>, no request is sent for
  \<open>B\<close>, and exactly one is sent for \<open>A\<close> when \<open>A\<close> is itself a root and no request before
  the one for \<open>A\<close> is refused.
\<close>

theorem C6_delete_requests_for_roots:
  assumes d: "distinct (selectedPathsOf tp)"
  shows "set (deleteRoots (selectedPathsOf tp))
           = {p \<in> set (selectedPathsOf tp).
                \<not> (\<exists>other \<in> set (selectedPathsOf tp). other \<noteq> p \<and> startsWith p (other @ ''/''))}
       \<and> new_calls w (deleteSelectedFolders tp False True refuses w)
           = map (\<lambda>p. DeleteFolder p False)
               (take (Suc (length (takeWhile (\<lambda>p. refuses p = None)
                                     (deleteRoots (selectedPathsOf tp)))))
                  (deleteRoots (selectedPathsOf tp)))
       \<and> ((\<forall>p \<in> set (deleteRoots (selectedPathsOf tp)). refuses p = None) \<longrightarrow>
            new_calls w (deleteSelectedFolders tp False True refuses w)
              = map (\<lambda>p. DeleteFolder p False) (deleteRoots (selectedPathsOf tp)))
       \<and> (A \<in> set (selectedPathsOf tp) \<and> B \<in> set (selectedPathsOf tp)
            \<and> startsWith B (A @ ''/'') \<longrightarrow>
            (\<forall>flag. DeleteFolder B flag
                \<notin> set (new_calls w (deleteSelectedFolders tp False True refuses w))))
       \<and> count_list (new_calls w (deleteSelectedFolders tp False True refuses w))
            (DeleteFolder A False)
           = (if A \<in> set (take (Suc (length (takeWhile (\<lambda>p. refuses p = None)
                                                (deleteRoots (selectedPathsOf tp)))))
                             (deleteRoots (selectedPathsOf tp)))
              then 1 else 0)"
proof -
  let ?sel = "selectedPathsOf tp"
  let ?roots = "deleteRoots ?sel"
  let ?sent = "take (Suc (length (takeWhile (\<lambda>p. refuses p = None) ?roots))) ?roots"
  let ?new = "new_calls w (deleteSelectedFolders tp False True refuses w)"
  have roots: "set ?roots = {p \<in> set ?sel.
          \<not> (\<exists>other \<in> set ?sel. other \<noteq> p \<and> startsWith p (other @ ''/''))}"
    by (rule set_deleteRoots)
  have new: "?new = map (\<lambda>p. DeleteFolder p False) ?sent"
    unfolding new_calls_confirmed folder_calls_exact by simp
  have all: "?new = map (\<lambda>p. DeleteFolder p False) ?roots"
    if "\<forall>p \<in> set ?roots. refuses p = None"
  proof -
    from that have "?sent = ?roots"
      by (rule take_through_all)
    with new show ?thesis by (simp only:)
  qed
  have desc: "\<forall>flag. DeleteFolder B flag \<notin> set ?new"
    if h: "A \<in> set ?sel \<and> B \<in> set ?sel \<and> startsWith B (A @ ''/'')"
  proof -
    from h have "A \<noteq> B" using startsWith_longer [of B A] by auto
    with h have "B \<notin> set ?roots"
      unfolding set_deleteRoots by blast
    then have "B \<notin> set ?sent"
      by (auto dest: in_set_takeD)
    then show ?thesis
      unfolding new by auto
  qed
  have "distinct ?roots"
    using d by (simp add: deleteRoots_def)
  then have ds: "distinct ?sent"
    by (rule distinct_take)
  have cnt: "count_list ?new (DeleteFolder A False) = (if A \<in> set ?sent then 1 else 0)"
  proof (cases "A \<in> set ?sent")
    case True
    with ds have "count_list (map (\<lambda>p. DeleteFolder p False) ?sent) (DeleteFolder A False) = 1"
      by (rule count_delete_request)
    with True new show ?thesis by simp
  next
    case False
    then have "DeleteFolder A False \<notin> set (map (\<lambda>p. DeleteFolder p False) ?sent)"
      by auto
    then have "count_list (map (\<lambda>p. DeleteFolder p False) ?sent) (DeleteFolder A False) = 0"
      by (rule count_notin)
    with False new show ?thesis by simp
  qed
  from roots new all desc cnt show ?thesis by blast
qed

text \<open>
  The selection \<open>x\<close>, \<open>a\<close>, \<open>a/b\<close>: its roots are \<open>x\<close> and \<open>a\<close>. When no request is
  refused both are requested, once each; when the request for \<open>x\<close> is refused, it is
  the only one sent.
\<close>

theorem C6_delete_requests_for_roots_witness:
  "distinct (selectedPathsOf tree_x_a_ab)
   \<and> deleteRoots (selectedPathsOf tree_x_a_ab) = [''x'', ''a'']
   \<and> new_calls world_abcd (deleteSelectedFolders tree_x_a_ab False True accepts_all world_abcd)
     = [DeleteFolder ''x'' False, DeleteFolder ''a'' False]
   \<and> DeleteFolder ''a/b'' False
       \<notin> set (new_calls world_abcd (deleteSelectedFolders tree_x_a_ab False True accepts_all world_abcd))
   \<and> count_list
        (new_calls world_abcd (deleteSelectedFolders tree_x_a_ab False True accepts_all world_abcd))
        (DeleteFolder ''a'' False) = 1
   \<and> new_calls world_abcd (deleteSelectedFolders tree_x_a_ab False True refuses_x world_abcd)
     = [DeleteFolder ''x'' False]
   \<and> count_list
        (new_calls world_abcd (deleteSelectedFolders tree_x_a_ab False True refuses_x world_abcd))
        (DeleteFolder ''a'' False) = 0"
  using C6_delete_requests_for_roots
      [where tp = tree_x_a_ab and w = world_abcd and refuses = accepts_all
         and A = "''a''" and B = "''a/b''"]
    C6_delete_requests_for_roots
      [where tp = tree_x_a_ab and w = world_abcd and refuses = refuses_x
         and A = "''a''" and B = "''a/b''"]
  by (simp add: tree_x_a_ab_def selectedPathsOf_def deleteRoots_def startsWith_def
      accepts_all_def refuses_x_def)

section \<open>Rename: what is checked before the remote service is called\<close>

text \<open>
  The three places that rename: \<open>saveFileName\<close> (inline rename of a row of the file
  list), \<open>saveFolderName\<close> (inline rename of a tree item) and \<open>saveFilename\<close> (the
  filename editor of the metadata panel). Each is modelled up to its first \<open>await\<close>:
  it either cancels the edit, shows a local error on the save button, or calls the
  remote service, which is recorded in \<open>api_calls\<close>.
\<close>

datatype rename_outcome = Cancelled | LocalError string | Requested

definition backslash :: string where
  "backslash = [CHR 0x5C]"

definition has_separator :: "string \<Rightarrow> bool" where
  "has_separator newName = (str_includes newName ''/'' \<or> str_includes newName backslash)"

definition saveFileName :: "string \<Rightarrow> node \<Rightarrow> app_world \<Rightarrow> rename_outcome \<times> app_world" where
  "saveFileName inputValue file w =
     (let newName = trim inputValue in
      if newName = [] \<or> newName = node_name file then (Cancelled, w)
      else if has_separator newName then (LocalError ''Invalid name'', w)
      else (Requested, w\<lparr>api_calls := api_calls w @ [RenameFile (node_path file) newName]\<rparr>))"

text \<open>The character class \<open>[<>:"|?*\x00-\x1f]\<close> of \<open>saveFolderName\<close>.\<close>

definition invalid_char :: "char \<Rightarrow> bool" where
  "invalid_char c =
     (c \<in> set [CHR ''<'', CHR ''>'', CHR '':'', CHR 0x22, CHR ''|'', CHR ''?'', CHR ''*'']
      \<or> (of_char c :: nat) \<le> 0x1F)"

definition reservedNames :: "string list" where
  "reservedNames =
     [''CON'', ''PRN'', ''AUX'', ''NUL'', ''COM1'', ''COM2'', ''COM3'', ''COM4'',
      ''COM5'', ''COM6'', ''COM7'', ''COM8'', ''COM9'', ''LPT1'', ''LPT2'',
      ''LPT3'', ''LPT4'', ''LPT5'', ''LPT6'', ''LPT7'', ''LPT8'', ''LPT9'']"

definition saveFolderName :: "string \<Rightarrow> node \<Rightarrow> app_world \<Rightarrow> rename_outcome \<times> app_world" where
  "saveFolderName inputValue item w =
     (let newName = trim inputValue in
      if newName = [] \<or> newName = node_name item then (Cancelled, w)
      else if has_separator newName \<or> list_ex invalid_char newName
        then (LocalError ''Invalid name'', w)
      else if toUpperCase newName \<in> set reservedNames then (LocalError ''Reserved name'', w)
      else (Requested,
            w\<lparr>api_calls := api_calls w @ [RenameFolder (node_path item) newName False]\<rparr>))"

text \<open>
  \<open>saveFilename\<close> of the metadata panel compares with \<open>State.originalFilename\<close> and
  renames \<open>State.currentFile\<close>.
\<close>

definition saveFilename :: "string \<Rightarrow> string \<Rightarrow> app_world \<Rightarrow> rename_outcome \<times> app_world" where
  "saveFilename inputValue originalFilename w =
     (let newName = trim inputValue in
      if newName = [] \<or> newName = originalFilename then (Cancelled, w)
      else (Requested,
            w\<lparr>api_calls := api_calls w
                 @ [RenameFile (case currentFile w of None \<Rightarrow> [] | Some f \<Rightarrow> f) newName]\<rparr>))"

text \<open>
  The two inline renames do what C4 says: an empty or unchanged trimmed name, or one
  with a separator, never reaches the remote service, nor does a reserved device
  name for a folder.
\<close>

lemma inline_renames_validate_locally:
  "(trim v = [] \<or> trim v = node_name n \<or> has_separator (trim v) \<longrightarrow>
      snd (saveFileName v n w) = w \<and> fst (saveFileName v n w) \<noteq> Requested
      \<and> snd (saveFolderName v n w) = w \<and> fst (saveFolderName v n w) \<noteq> Requested)
   \<and> (toUpperCase (trim v) \<in> set reservedNames \<longrightarrow>
      snd (saveFolderName v n w) = w \<and> fst (saveFolderName v n w) \<noteq> Requested)"
  by (simp add: saveFileName_def saveFolderName_def Let_def)

lemma inline_renames_validate_locally_example:
  "saveFileName ''  a/b.mp3 '' \<lparr>node_name = ''x.mp3'', node_path = ''music/x.mp3''\<rparr> world_abcd
     = (LocalError ''Invalid name'', world_abcd)
   \<and> saveFolderName '' com1 '' \<lparr>node_name = ''music'', node_path = ''music''\<rparr> world_abcd
     = (LocalError ''Reserved name'', world_abcd)
   \<and> saveFolderName ''music '' \<lparr>node_name = ''music'', node_path = ''music''\<rparr> world_abcd
     = (Cancelled, world_abcd)"
  using inline_renames_validate_locally
      [of "''  a/b.mp3 ''" "\<lparr>node_name = ''x.mp3'', node_path = ''music/x.mp3''\<rparr>" world_abcd]
  by (simp add: saveFileName_def saveFolderName_def Let_def trim_def is_space_def
      has_separator_def startsWith_def backslash_def toUpperCase_def upper_char_def
      reservedNames_def invalid_char_def)

text \<open>
  C4 on the third place: the filename editor of the metadata panel has no separator
  test. With \<open>music/x.mp3\<close> open and the name \<open>a/b.mp3\<close> typed, \<open>saveFilename\<close> calls
  \<open>API.renameFile\<close> although the new name contains \<open>/\<close>.
\<close>

theorem C4_panel_rename_sends_separator:
  "has_separator (trim ''a/b.mp3'')
   \<and> saveFilename ''a/b.mp3'' ''x.mp3'' (world_abcd\<lparr>currentFile := Some ''music/x.mp3''\<rparr>)
     = (Requested,
        world_abcd\<lparr>currentFile := Some ''music/x.mp3'',
          api_calls := [RenameFile ''music/x.mp3'' ''a/b.mp3'']\<rparr>)"
  by (simp add: saveFilename_def Let_def trim_def is_space_def has_separator_def
      startsWith_def world_abcd_def)

section \<open>Requests and their responses\<close>

text \<open>
  An \<open>async\<close> function is modelled in two steps: what it does up to its \<open>await\<close>
  (the request is issued; the values it keeps in local variables are returned), and
  what it does when the promise settles, in the state the application has by then.
\<close>

datatype 'a response = Resolved 'a | Rejected

record metadata_resp =
  std_fields :: "(string \<times> string) list"
  all_fields :: "(string \<times> string option) list"
  supportsAlbumArt :: bool
  hasArt :: bool
  art :: "string option"

record folder_stats =
  stats_ok :: bool
  folderCount :: nat
  fileCount :: nat
  totalSizeBytes :: nat

record footer =
  selectionCount :: nat
  shown_folders :: nat
  shown_files :: nat
  shown_bytes :: nat

record load_world = app_world +
  loadFileRequestId :: nat
  originalFilename :: string
  originalMetadata :: "(string \<times> string) list"
  metadata :: "metadata_resp option"
  currentAlbumArt :: "string option"
  formEnabled :: bool
  loadingShown :: bool
  statsRequestId :: nat
  footer_shown :: "footer option"

subsection \<open>The metadata of a file\<close>

definition standardFields :: "string list" where
  "standardFields =
     [''title'', ''artist'', ''album'', ''albumartist'', ''date'', ''genre'', ''composer'',
      ''track'', ''disc'']"

definition basename :: "string \<Rightarrow> string" where
  "basename p = rev (takeWhile (\<lambda>c. c \<noteq> CHR ''/'') (rev p))"

text \<open>\<open>loadFile\<close> up to \<open>await API.getMetadata(filepath)\<close>; the request id is returned.\<close>

definition loadFile_issue :: "string \<Rightarrow> 'a load_world_scheme \<Rightarrow> nat \<times> 'a load_world_scheme" where
  "loadFile_issue filepath w =
     (let requestId = loadFileRequestId w + 1 in
      (requestId,
       w\<lparr>loadFileRequestId := requestId,
         currentFile := Some filepath,
         originalFilename := basename filepath,
         loadingShown := True,
         currentAlbumArt := None,
         formEnabled := False\<rparr>))"

text \<open>\<open>loadFile\<close> after the \<open>await\<close>: the \<open>try\<close> block on a resolved promise, the \<open>catch\<close>
  block on a rejected one.\<close>

definition loadFile_settle ::
  "nat \<Rightarrow> metadata_resp response \<Rightarrow> 'a load_world_scheme \<Rightarrow> 'a load_world_scheme" where
  "loadFile_settle requestId resp w =
     (case resp of
        Resolved data \<Rightarrow>
          if requestId \<noteq> loadFileRequestId w then w
          else w\<lparr>originalMetadata :=
                    map (\<lambda>f. (f, case map_of (std_fields data) f of None \<Rightarrow> [] | Some v \<Rightarrow> v))
                      standardFields
                    @ concat (map (\<lambda>(k, v). case v of None \<Rightarrow> []
                                   | Some x \<Rightarrow> if k \<in> set standardFields then [] else [(k, x)])
                               (all_fields data)),
                  metadata := Some data,
                  loadingShown := False,
                  currentAlbumArt :=
                    (if supportsAlbumArt data \<and> hasArt data \<and> truthy (art data) then art data
                     else currentAlbumArt w),
                  formEnabled := True\<rparr>
      | Rejected \<Rightarrow>
          if requestId = loadFileRequestId w
          then w\<lparr>status_shown := status_shown w @ [''Error loading metadata''],
                 formEnabled := True,
                 loadingShown := False\<rparr>
          else w)"

subsection \<open>The folder statistics of the footer\<close>

definition updateFolderStatsFooter ::
  "folder_stats option \<Rightarrow> nat \<Rightarrow> 'a load_world_scheme \<Rightarrow> 'a load_world_scheme" where
  "updateFolderStatsFooter stats selCount w =
     w\<lparr>footer_shown :=
         (case stats of
            None \<Rightarrow> None
          | Some st \<Rightarrow>
              if stats_ok st
              then Some \<lparr>selectionCount = selCount, shown_folders = folderCount st,
                          shown_files = fileCount st, shown_bytes = totalSizeBytes st\<rparr>
              else None)\<rparr>"

text \<open>
  \<open>updateSelectedFolderStats\<close> up to its \<open>await\<close>. With nothing selected it asks for the
  statistics of the current folder and keeps no request id; otherwise it asks for
  those of the unique roots of the selection and keeps the next request id.
\<close>

datatype stats_request = PlainStats string | SelectionStats nat "string list"

definition updateSelectedFolderStats_issue ::
  "string list \<Rightarrow> 'a load_world_scheme \<Rightarrow> stats_request \<times> 'a load_world_scheme" where
  "updateSelectedFolderStats_issue selectedPaths w =
     (if selectedPaths = [] then (PlainStats (currentPath w), w)
      else
        (let uniqueRoots = deleteRoots selectedPaths;
             requestId = statsRequestId w + 1
         in (SelectionStats requestId uniqueRoots, w\<lparr>statsRequestId := requestId\<rparr>)))"

text \<open>After the \<open>await\<close>, in the branch without a selection.\<close>

definition settle_plain ::
  "folder_stats response \<Rightarrow> 'a load_world_scheme \<Rightarrow> 'a load_world_scheme" where
  "settle_plain resp w =
     (case resp of
        Resolved stats \<Rightarrow> updateFolderStatsFooter (Some stats) 0 w
      | Rejected \<Rightarrow> updateFolderStatsFooter None 0 w)"

text \<open>After the \<open>await\<close>, in the branch with a selection.\<close>

definition merge_stats :: "folder_stats list \<Rightarrow> folder_stats" where
  "merge_stats results =
     foldl (\<lambda>acc st. if \<not> stats_ok st then acc
                     else acc\<lparr>folderCount := folderCount acc + folderCount st,
                              fileCount := fileCount acc + fileCount st,
                              totalSizeBytes := totalSizeBytes acc + totalSizeBytes st\<rparr>)
       \<lparr>stats_ok = True, folderCount = 0, fileCount = 0, totalSizeBytes = 0\<rparr> results"

definition settle_selection ::
  "nat \<Rightarrow> string list \<Rightarrow> folder_stats list response \<Rightarrow> 'a load_world_scheme
     \<Rightarrow> 'a load_world_scheme" where
  "settle_selection requestId uniqueRoots resp w =
     (case resp of
        Resolved results \<Rightarrow>
          if statsRequestId w \<noteq> requestId then w
          else updateFolderStatsFooter (Some (merge_stats results)) (length uniqueRoots) w
      | Rejected \<Rightarrow>
          if statsRequestId w \<noteq> requestId then w
          else updateFolderStatsFooter None 0 w)"

text \<open>
  The two requests a plain click on a tree item starts: \<open>clearFolderSelection\<close> and
  \<open>toggleFolderSelected\<close> both end with a call of \<open>updateSelectedFolderStats\<close>.
\<close>

definition click_stats_requests ::
  "tree_pane \<Rightarrow> item_el \<Rightarrow> 'a load_world_scheme
     \<Rightarrow> stats_request \<times> stats_request \<times> 'a load_world_scheme" where
  "click_stats_requests tp dv w =
     (let t1 = clearFolderSelection tp;
          (r0, w1) = updateSelectedFolderStats_issue (selectedFolderPaths t1) w;
          t2 = toggleFolderSelected t1 dv (Some True);
          (r1, w2) = updateSelectedFolderStats_issue (selectedFolderPaths t2) w1
      in (r0, r1, w2))"

subsection \<open>Responses that carry a request id\<close>

lemma stale_metadata_discarded:
  "requestId \<noteq> loadFileRequestId w \<Longrightarrow> loadFile_settle requestId resp w = w"
  by (simp add: loadFile_settle_def split: response.splits)

lemma stale_selection_stats_discarded:
  "requestId \<noteq> statsRequestId w \<Longrightarrow> settle_selection requestId roots resp w = w"
  by (auto simp: settle_selection_def split: response.splits)

lemma superseded_metadata_request:
  "loadFile_settle (fst (loadFile_issue f w)) resp
     (snd (loadFile_issue g (snd (loadFile_issue f w))))
     = snd (loadFile_issue g (snd (loadFile_issue f w)))"
  by (rule stale_metadata_discarded) (simp add: loadFile_issue_def Let_def)

subsection \<open>A response that carries none\<close>

definition world_music :: load_world where
  "world_music =
     \<lparr>remote_paths = [''music'', ''B''], api_calls = [], currentPath = ''music'',
      currentFile = None, listed_files = [], status_shown = [],
      loadFileRequestId = 0, originalFilename = [], originalMetadata = [], metadata = None,
      currentAlbumArt = None, formEnabled = True, loadingShown = False,
      statsRequestId = 0, footer_shown = None\<rparr>"

definition stats_music :: folder_stats where
  "stats_music = \<lparr>stats_ok = True, folderCount = 3, fileCount = 40, totalSizeBytes = 900\<rparr>"

definition stats_B :: folder_stats where
  "stats_B = \<lparr>stats_ok = True, folderCount = 0, fileCount = 2, totalSizeBytes = 50\<rparr>"

text \<open>
  C1 on the footer statistics. Folder \<open>A\<close> is selected and \<open>music\<close> is the current
  folder; the user clicks the tree item \<open>B\<close>. The click starts a request for the
  statistics of \<open>music\<close> (no selection at that moment, no request id) and then one for
  the selection \<open>B\<close> (request id 1, the latest). When the response for \<open>B\<close> arrives
  first and the one for \<open>music\<close> after it, the footer ends with the statistics of
  \<open>music\<close>: the response to the older request was applied after the latest one.
\<close>

theorem C1_older_stats_response_applied:
  "click_stats_requests t_A_expanded \<lparr>el_id = 2, data_path = ''B''\<rparr> world_music
     = (PlainStats ''music'', SelectionStats 1 [''B''], world_music\<lparr>statsRequestId := 1\<rparr>)
   \<and> footer_shown (settle_selection 1 [''B''] (Resolved [stats_B])
        (world_music\<lparr>statsRequestId := 1\<rparr>))
     = Some \<lparr>selectionCount = 1, shown_folders = 0, shown_files = 2, shown_bytes = 50\<rparr>
   \<and> footer_shown (settle_plain (Resolved stats_music)
        (settle_selection 1 [''B''] (Resolved [stats_B]) (world_music\<lparr>statsRequestId := 1\<rparr>)))
     = Some \<lparr>selectionCount = 0, shown_folders = 3, shown_files = 40, shown_bytes = 900\<rparr>"
  by (simp add: click_stats_requests_def updateSelectedFolderStats_issue_def
      clearFolderSelection_def toggleFolderSelected_def t_A_expanded_def world_music_def
      jsset_has_def jsset_add_def deleteRoots_def startsWith_def Let_def
      settle_selection_def settle_plain_def updateFolderStatsFooter_def merge_stats_def
      stats_B_def stats_music_def)

section \<open>Rewriting paths after a rename or a move\<close>

text \<open>
  The arrow function that \<open>handleDrop\<close> (and the merge branch of \<open>saveFolderName\<close>) maps
  over the expanded paths:
  \<open>path => (path === oldPath || path.startsWith(oldPath + '/'))
      ? newPath + path.slice(oldPath.length) : path\<close>.
\<close>

definition rewritePath :: "string \<Rightarrow> string \<Rightarrow> string \<Rightarrow> string" where
  "rewritePath oldPath newPath path =
     (if path = oldPath \<or> startsWith path (oldPath @ ''/'')
      then newPath @ slice_from path (length oldPath)
      else path)"

text \<open>\<open>Array.from(new Set(xs))\<close>: the members in the order of their first occurrence.\<close>

definition jsset_of :: "'a list \<Rightarrow> 'a list" where
  "jsset_of xs = fold (\<lambda>x acc. jsset_add acc x) xs []"

text \<open>
  The subtree cache \<open>State.treeData\<close> is a plain object keyed by path. Its own
  properties are modelled as an association list in the order in which the keys were
  added. (Keys that are array indices would be enumerated first; no statement below
  depends on the order of the keys.) A value is \<open>undefined\<close>, a listing (an array, which
  is truthy even when empty) or a member of \<open>Object.prototype\<close>: reading a key that is
  not an own property gives the member of that name that the object inherits, if
  there is one. The accessor \<open>__proto__\<close> is read like the other members; an
  assignment to it, which would replace the prototype, is not modelled.
\<close>

datatype 'v js_value = Undefined | Listing 'v | Builtin

type_synonym 'v js_object = "(string \<times> 'v js_value) list"

definition object_prototype_names :: "string list" where
  "object_prototype_names =
     [''constructor'', ''hasOwnProperty'', ''isPrototypeOf'', ''propertyIsEnumerable'',
      ''toLocaleString'', ''toString'', ''valueOf'', ''__defineGetter__'',
      ''__defineSetter__'', ''__lookupGetter__'', ''__lookupSetter__'', ''__proto__'']"

definition obj_get :: "'v js_object \<Rightarrow> string \<Rightarrow> 'v js_value" where
  "obj_get td k =
     (case map_of td k of
        Some v \<Rightarrow> v
      | None \<Rightarrow> if k \<in> set object_prototype_names then Builtin else Undefined)"

fun obj_set :: "'v js_object \<Rightarrow> string \<Rightarrow> 'v js_value \<Rightarrow> 'v js_object" where
  "obj_set [] k v = [(k, v)]"
| "obj_set ((k', v') # td) k v = (if k' = k then (k, v) # td else (k', v') # obj_set td k v)"

definition obj_delete :: "'v js_object \<Rightarrow> string \<Rightarrow> 'v js_object" where
  "obj_delete td k = filter (\<lambda>kv. fst kv \<noteq> k) td"

definition obj_keys :: "'v js_object \<Rightarrow> string list" where
  "obj_keys td = map fst td"

record 'v tree_state = tree_pane +
  treeData :: "'v js_object"

subsection \<open>After a successful drop of a folder\<close>

text \<open>
  \<open>handleDrop\<close> after the remote service has moved the folder: the current folder,
  the open file and the expanded paths (which then go to
  \<open>reloadTreePreservingState\<close>).
\<close>

definition drop_world :: "string \<Rightarrow> string \<Rightarrow> 'a app_world_scheme \<Rightarrow> 'a app_world_scheme" where
  "drop_world oldPath newPath w =
     w\<lparr>currentPath :=
         (if currentPath w \<noteq> []
             \<and> (currentPath w = oldPath \<or> startsWith (currentPath w) (oldPath @ ''/''))
          then newPath @ slice_from (currentPath w) (length oldPath)
          else currentPath w),
       currentFile :=
         (case currentFile w of
            None \<Rightarrow> None
          | Some f \<Rightarrow>
              if f \<noteq> [] \<and> (f = oldPath \<or> startsWith f (oldPath @ ''/''))
              then Some (newPath @ slice_from f (length oldPath))
              else Some f)\<rparr>"

definition drop_expandedPaths :: "string \<Rightarrow> string \<Rightarrow> string list \<Rightarrow> string list" where
  "drop_expandedPaths oldPath newPath currentExpanded =
     jsset_of (map (rewritePath oldPath newPath) currentExpanded)"

subsection \<open>After a successful rename of a folder\<close>

text \<open>The body of the \<open>forEach\<close> over \<open>Object.keys(State.treeData)\<close>.\<close>

definition rekey_step ::
  "string \<Rightarrow> string \<Rightarrow> string \<Rightarrow> 'v js_object \<times> string list \<Rightarrow> 'v js_object \<times> string list" where
  "rekey_step oldPath newPath key s =
     (if startsWith key (oldPath @ ''/'') then
        (let newKey = newPath @ slice_from key (length oldPath);
             td = obj_delete (obj_set (fst s) newKey (obj_get (fst s) key)) key;
             ex = (if jsset_has (snd s) key then jsset_add (jsset_delete (snd s) key) newKey
                   else snd s)
         in (td, ex))
      else s)"

text \<open>
  \<open>updateFolderReferences(oldPath, newPath)\<close> on the cache, the expansion set, the
  current folder and the open file: the entry of the renamed folder itself in the cache
  (\<open>move_root_key\<close>) and in the expansion set (\<open>move_root_expanded\<close>), the current
  folder, the open file, then the loop over the keys of the cache. \<open>updateDOMPaths\<close>,
  which it calls next, is modelled further down, on the tree items of the document;
  the reload of the file list that follows it is not modelled.
\<close>

definition move_root_key :: "string \<Rightarrow> string \<Rightarrow> 'v js_object \<Rightarrow> 'v js_object" where
  "move_root_key oldPath newPath td =
     (if obj_get td oldPath \<noteq> Undefined
      then obj_delete (obj_set td newPath (obj_get td oldPath)) oldPath
      else td)"

definition move_root_expanded :: "string \<Rightarrow> string \<Rightarrow> string list \<Rightarrow> string list" where
  "move_root_expanded oldPath newPath ex =
     (if jsset_has ex oldPath then jsset_add (jsset_delete ex oldPath) newPath else ex)"

definition updateFolderReferences ::
  "string \<Rightarrow> string \<Rightarrow> ('v, 'a) tree_state_scheme \<times> 'b app_world_scheme
     \<Rightarrow> ('v, 'a) tree_state_scheme \<times> 'b app_world_scheme" where
  "updateFolderReferences oldPath newPath s =
     (let ts = fst s; w = snd s;
          td1 = move_root_key oldPath newPath (treeData ts);
          ex1 = move_root_expanded oldPath newPath (expandedFolders ts);
          cp = (if currentPath w = oldPath then newPath
                else if currentPath w \<noteq> [] \<and> startsWith (currentPath w) (oldPath @ ''/'')
                then newPath @ slice_from (currentPath w) (length oldPath)
                else currentPath w);
          cf = (case currentFile w of
                  None \<Rightarrow> None
                | Some f \<Rightarrow>
                    if f \<noteq> [] \<and> startsWith f (oldPath @ ''/'')
                    then Some (newPath @ slice_from f (length oldPath))
                    else Some f);
          r = fold (rekey_step oldPath newPath) (obj_keys td1) (td1, ex1)
      in (ts\<lparr>expandedFolders := snd r, treeData := fst r\<rparr>,
          w\<lparr>currentPath := cp, currentFile := cf\<rparr>))"

subsection \<open>Facts about the path tests\<close>

lemma startsWith_iff: "startsWith s p = (\<exists>r. s = p @ r)"
proof
  assume "startsWith s p"
  then have "s = p @ drop (length p) s"
    by (metis append_take_drop_id startsWith_def)
  then show "\<exists>r. s = p @ r" ..
next
  assume "\<exists>r. s = p @ r"
  then show "startsWith s p" by (auto simp: startsWith_def)
qed

lemma isAncestor_iff: "isAncestor a p = (p = a \<or> (\<exists>r. p = a @ ''/'' @ r))"
  by (simp add: isAncestor_def startsWith_iff)

lemma rewritePath_changes:
  assumes "oldPath \<noteq> newPath"
  shows "(rewritePath oldPath newPath p \<noteq> p) = isAncestor oldPath p"
proof (cases "isAncestor oldPath p")
  case False
  then show ?thesis by (simp add: rewritePath_def isAncestor_def)
next
  case True
  then obtain r where p: "p = oldPath @ r"
    by (auto simp: isAncestor_iff)
  have "newPath @ r \<noteq> oldPath @ r"
    using assms by simp
  with p have "newPath @ drop (length oldPath) p \<noteq> p" by simp
  with True show ?thesis
    by (simp add: rewritePath_def isAncestor_def slice_from_def)
qed

lemma rewritePath_under:
  "isAncestor oldPath p \<Longrightarrow> rewritePath oldPath newPath p = newPath @ drop (length oldPath) p"
  by (simp add: rewritePath_def isAncestor_def slice_from_def)

lemma rewritePath_other:
  "\<not> isAncestor oldPath p \<Longrightarrow> rewritePath oldPath newPath p = p"
  by (simp add: rewritePath_def isAncestor_def)

lemma not_ancestor_of_empty: "oldPath \<noteq> [] \<Longrightarrow> \<not> isAncestor oldPath []"
  by (auto simp: isAncestor_iff)

text \<open>A rewritten key is not under the old path when the two paths are not nested.\<close>

lemma rewritten_not_under:
  assumes no: "\<not> isAncestor oldPath newPath" and on: "\<not> isAncestor newPath oldPath"
    and key: "startsWith key (oldPath @ ''/'')"
  shows "\<not> startsWith (newPath @ drop (length oldPath) key) (oldPath @ ''/'')"
proof
  from key obtain rest where k: "key = oldPath @ ''/'' @ rest"
    by (auto simp: startsWith_iff)
  assume "startsWith (newPath @ drop (length oldPath) key) (oldPath @ ''/'')"
  then obtain r where "newPath @ ''/'' @ rest = oldPath @ ''/'' @ r"
    unfolding k by (auto simp: startsWith_iff)
  then obtain us where
    "(newPath = oldPath @ us \<and> us @ ''/'' @ rest = ''/'' @ r)
     \<or> (newPath @ us = oldPath \<and> ''/'' @ rest = us @ ''/'' @ r)"
    by (auto simp: append_eq_append_conv2)
  then show False
  proof
    assume h: "newPath = oldPath @ us \<and> us @ ''/'' @ rest = ''/'' @ r"
    show False
    proof (cases us)
      case Nil
      with h no show False by (simp add: isAncestor_iff)
    next
      case (Cons c cs)
      with h have "c = CHR ''/''" by simp
      with h Cons have "newPath = oldPath @ ''/'' @ cs" by simp
      with no show False by (auto simp: isAncestor_iff)
    qed
  next
    assume h: "newPath @ us = oldPath \<and> ''/'' @ rest = us @ ''/'' @ r"
    show False
    proof (cases us)
      case Nil
      with h no show False by (simp add: isAncestor_iff)
    next
      case (Cons c cs)
      with h have "c = CHR ''/''" by simp
      with h Cons have "oldPath = newPath @ ''/'' @ cs" by auto
      with on show False by (auto simp: isAncestor_iff)
    qed
  qed
qed


subsection \<open>Facts about the cache and the expansion set\<close>

lemma keys_obj_set_aux: "fst ` set (obj_set td k v) = insert k (fst ` set td)"
proof (induction td)
  case Nil
  show ?case by simp
next
  case (Cons kv td)
  obtain k' v' where kv: "kv = (k', v')" by (cases kv)
  show ?case
  proof (cases "k' = k")
    case True
    then show ?thesis by (simp add: kv)
  next
    case False
    with Cons.IH show ?thesis by (simp add: kv insert_commute)
  qed
qed

lemma keys_obj_set: "set (obj_keys (obj_set td k v)) = insert k (set (obj_keys td))"
  by (simp add: obj_keys_def keys_obj_set_aux)

lemma keys_obj_delete: "set (obj_keys (obj_delete td k)) = set (obj_keys td) - {k}"
  by (auto simp: obj_delete_def obj_keys_def)

lemma obj_get_defined:
  assumes "\<forall>kv \<in> set td. snd kv \<noteq> Undefined"
  shows "(obj_get td k \<noteq> Undefined)
           = (k \<in> set (obj_keys td) \<or> k \<in> set object_prototype_names)"
proof (cases "map_of td k")
  case None
  then have "k \<notin> fst ` set td" by (simp add: map_of_eq_None_iff)
  with None show ?thesis
    by (simp add: obj_get_def obj_keys_def)
next
  case (Some v)
  then have in_td: "(k, v) \<in> set td" by (rule map_of_SomeD)
  with assms have "v \<noteq> Undefined" by force
  moreover from in_td have "k \<in> fst ` set td" by force
  ultimately show ?thesis
    using Some by (simp add: obj_get_def obj_keys_def)
qed

lemma set_jsset_of: "set (jsset_of xs) = set xs"
proof -
  have "set (fold (\<lambda>x acc. jsset_add acc x) xs acc) = set acc \<union> set xs" for acc :: "'a list"
    by (induction xs arbitrary: acc) (auto simp: jsset_add_def)
  then show ?thesis by (simp add: jsset_of_def)
qed

lemma rekey_step_keys:
  "startsWith k (oldPath @ ''/'') \<Longrightarrow>
   set (obj_keys (fst (rekey_step oldPath newPath k s)))
     = insert (newPath @ drop (length oldPath) k) (set (obj_keys (fst s))) - {k}"
  by (simp add: rekey_step_def Let_def slice_from_def keys_obj_delete keys_obj_set)

lemma rekey_step_skip:
  "\<not> startsWith k (oldPath @ ''/'') \<Longrightarrow> rekey_step oldPath newPath k s = s"
  by (simp add: rekey_step_def)

lemma fold_rekey_keys:
  assumes N: "\<forall>k. startsWith k (oldPath @ ''/'')
                \<longrightarrow> \<not> startsWith (newPath @ drop (length oldPath) k) (oldPath @ ''/'')"
  shows "set (obj_keys (fst (fold (rekey_step oldPath newPath) ks s)))
     = (set (obj_keys (fst s)) - set (filter (\<lambda>k. startsWith k (oldPath @ ''/'')) ks))
       \<union> (\<lambda>k. newPath @ drop (length oldPath) k)
           ` set (filter (\<lambda>k. startsWith k (oldPath @ ''/'')) ks)"
proof (induction ks arbitrary: s)
  case Nil
  then show ?case by simp
next
  case (Cons k ks)
  let ?D = "set (filter (\<lambda>k. startsWith k (oldPath @ ''/'')) ks)"
  let ?rw = "\<lambda>k. newPath @ drop (length oldPath) k"
  show ?case
  proof (cases "startsWith k (oldPath @ ''/'')")
    case False
    then show ?thesis
      using Cons.IH [of s] by (simp add: rekey_step_skip)
  next
    case True
    note nk = N [rule_format, OF True]
    have ne: "?rw k \<noteq> k"
    proof
      assume e: "?rw k = k"
      from nk have "\<not> startsWith k (oldPath @ ''/'')" unfolding e .
      with True show False by (rule notE [rotated])
    qed
    from nk have notD: "?rw k \<notin> ?D"
      unfolding set_filter by blast
    have "set (obj_keys (fst (fold (rekey_step oldPath newPath) (k # ks) s)))
        = (insert (?rw k) (set (obj_keys (fst s))) - {k} - ?D) \<union> ?rw ` ?D"
      using Cons.IH [of "rekey_step oldPath newPath k s"]
      by (simp only: fold_simps rekey_step_keys [OF True])
    also have "\<dots> = (set (obj_keys (fst s)) - insert k ?D) \<union> ?rw ` insert k ?D"
    proof -
      have "insert x A - {y} - B = insert x (A - insert y B)"
        if "x \<noteq> y" "x \<notin> B" for x y :: string and A B
        using that by blast
      from this [OF ne notD] show ?thesis by simp
    qed
    finally show ?thesis
      by (simp only: filter.simps True if_True list.set)
  qed
qed

lemma fold_rekey_keeps:
  "p \<in> set (snd s) \<Longrightarrow> \<not> startsWith p (oldPath @ ''/'') \<Longrightarrow>
   p \<in> set (snd (fold (rekey_step oldPath newPath) ks s))"
proof (induction ks arbitrary: s)
  case Nil
  then show ?case by simp
next
  case (Cons k ks)
  have "p \<in> set (snd (rekey_step oldPath newPath k s))"
    using Cons.prems
    by (auto simp: rekey_step_def Let_def jsset_add_def jsset_delete_def)
  with Cons.prems(2) show ?case
    by (simp add: Cons.IH)
qed

lemma fold_rekey_untouched:
  "p \<in> set (snd s) \<Longrightarrow> p \<notin> set ks \<Longrightarrow>
   p \<in> set (snd (fold (rekey_step oldPath newPath) ks s))"
proof (induction ks arbitrary: s)
  case Nil
  then show ?case by simp
next
  case (Cons k ks)
  from Cons.prems have "p \<noteq> k" and rest: "p \<notin> set ks" by auto
  with Cons.prems(1) have "p \<in> set (snd (rekey_step oldPath newPath k s))"
    by (auto simp: rekey_step_def Let_def jsset_add_def jsset_delete_def)
  then show ?case
    using rest by (simp add: Cons.IH)
qed

lemma updateFolderReferences_expanded:
  "expandedFolders (fst (updateFolderReferences oldPath newPath (ts, w)))
     = snd (fold (rekey_step oldPath newPath)
              (obj_keys (move_root_key oldPath newPath (treeData ts)))
              (move_root_key oldPath newPath (treeData ts),
               move_root_expanded oldPath newPath (expandedFolders ts)))"
  by (simp add: updateFolderReferences_def Let_def)

lemma updateFolderReferences_treeData:
  "treeData (fst (updateFolderReferences oldPath newPath (ts, w)))
     = fst (fold (rekey_step oldPath newPath)
              (obj_keys (move_root_key oldPath newPath (treeData ts)))
              (move_root_key oldPath newPath (treeData ts),
               move_root_expanded oldPath newPath (expandedFolders ts)))"
  by (simp add: updateFolderReferences_def Let_def)

lemma move_root_key_keys:
  assumes "\<forall>kv \<in> set td. snd kv \<noteq> Undefined"
    and "oldPath \<notin> set object_prototype_names"
  shows "set (obj_keys (move_root_key oldPath newPath td))
     = (if oldPath \<in> set (obj_keys td) then insert newPath (set (obj_keys td)) - {oldPath}
        else set (obj_keys td))"
  using obj_get_defined [OF assms(1), of oldPath] assms(2)
  by (simp add: move_root_key_def keys_obj_delete keys_obj_set)

lemma move_root_key_subset:
  "set (obj_keys (move_root_key oldPath newPath td)) \<subseteq> insert newPath (set (obj_keys td))"
  by (auto simp: move_root_key_def keys_obj_delete keys_obj_set)

lemma cache_keys_rewritten:
  assumes defined: "\<forall>kv \<in> set (treeData ts). snd kv \<noteq> Undefined"
    and plain: "oldPath \<notin> set object_prototype_names"
    and no: "\<not> isAncestor oldPath newPath" and on: "\<not> isAncestor newPath oldPath"
  shows "set (obj_keys (treeData (fst (updateFolderReferences oldPath newPath (ts, w)))))
           = rewritePath oldPath newPath ` set (obj_keys (treeData ts))"
proof -
  let ?K = "set (obj_keys (treeData ts))"
  let ?under = "\<lambda>k. startsWith k (oldPath @ ''/'')"
  let ?rw = "\<lambda>k. newPath @ drop (length oldPath) k"
  let ?K1 = "set (obj_keys (move_root_key oldPath newPath (treeData ts)))"
  have N: "\<forall>k. ?under k \<longrightarrow> \<not> ?under (?rw k)"
    using rewritten_not_under [OF no on] by blast
  have neq: "newPath \<noteq> oldPath" and new_not_under: "\<not> ?under newPath"
    using no by (auto simp: isAncestor_def)
  have old_not_under: "\<not> ?under oldPath"
    by (auto simp: startsWith_iff)
  note K1 = move_root_key_keys [OF defined plain, of newPath]
  have "set (obj_keys (treeData (fst (updateFolderReferences oldPath newPath (ts, w)))))
      = (?K1 - {k \<in> ?K1. ?under k}) \<union> ?rw ` {k \<in> ?K1. ?under k}"
    unfolding updateFolderReferences_treeData fold_rekey_keys [OF N] set_filter fst_conv
    by blast
  also have "\<dots> = rewritePath oldPath newPath ` ?K"
  proof (intro set_eqI iffI)
    fix q
    assume "q \<in> (?K1 - {k \<in> ?K1. ?under k}) \<union> ?rw ` {k \<in> ?K1. ?under k}"
    then consider (keep) "q \<in> ?K1" "\<not> ?under q"
      | (moved) k where "k \<in> ?K1" "?under k" "q = ?rw k"
      by blast
    then show "q \<in> rewritePath oldPath newPath ` ?K"
    proof cases
      case keep
      show ?thesis
      proof (cases "q = newPath \<and> oldPath \<in> ?K")
        case True
        then have "q = rewritePath oldPath newPath oldPath"
          by (simp add: rewritePath_def slice_from_def)
        with True show ?thesis by (intro image_eqI [where x = oldPath]) simp_all
      next
        case False
        with keep(1) have qK: "q \<in> ?K" and "q \<noteq> oldPath"
          unfolding K1 by (auto split: if_splits)
        with keep have "q = rewritePath oldPath newPath q"
          by (simp add: rewritePath_def)
        with qK show ?thesis by (intro image_eqI [where x = q]) simp_all
      qed
    next
      case moved
      with new_not_under have kK: "k \<in> ?K"
        unfolding K1 by (auto split: if_splits)
      from moved have "q = rewritePath oldPath newPath k"
        by (simp add: rewritePath_def slice_from_def)
      with kK show ?thesis by (intro image_eqI [where x = k]) simp_all
    qed
  next
    fix q
    assume "q \<in> rewritePath oldPath newPath ` ?K"
    then obtain k where k: "k \<in> ?K" and q: "q = rewritePath oldPath newPath k"
      by blast
    consider (root) "k = oldPath" | (under) "k \<noteq> oldPath" "?under k"
      | (other) "k \<noteq> oldPath" "\<not> ?under k" by blast
    then show "q \<in> (?K1 - {k \<in> ?K1. ?under k}) \<union> ?rw ` {k \<in> ?K1. ?under k}"
    proof cases
      case root
      with q have "q = newPath" by (simp add: rewritePath_def slice_from_def)
      moreover from root k neq have "newPath \<in> ?K1" unfolding K1 by simp
      ultimately show ?thesis using new_not_under by blast
    next
      case under
      with q have "q = ?rw k" by (simp add: rewritePath_def slice_from_def)
      moreover from under k have "k \<in> ?K1" unfolding K1 by simp
      ultimately show ?thesis using under by blast
    next
      case other
      with q have "q = k" by (simp add: rewritePath_def)
      moreover from other k have "k \<in> ?K1" unfolding K1 by simp
      ultimately show ?thesis using other by blast
    qed
  qed
  finally show ?thesis .
qed

lemma expanded_kept:
  assumes "jsset_has (expandedFolders ts) q" "\<not> isAncestor oldPath q"
  shows "jsset_has (expandedFolders (fst (updateFolderReferences oldPath newPath (ts, w)))) q"
proof -
  from assms(2) have nu: "\<not> startsWith q (oldPath @ ''/'')" and ne: "q \<noteq> oldPath"
    by (auto simp: isAncestor_def)
  have "q \<in> set (move_root_expanded oldPath newPath (expandedFolders ts))"
    using assms(1) ne
    by (auto simp: move_root_expanded_def jsset_has_def jsset_add_def jsset_delete_def)
  then have "q \<in> set (snd (move_root_key oldPath newPath (treeData ts),
                            move_root_expanded oldPath newPath (expandedFolders ts)))"
    by simp
  then show ?thesis
    unfolding updateFolderReferences_expanded jsset_has_def
    using nu by (rule fold_rekey_keeps)
qed

lemma expanded_root_renamed:
  assumes "jsset_has (expandedFolders ts) oldPath" "\<not> isAncestor oldPath newPath"
  shows "jsset_has (expandedFolders (fst (updateFolderReferences oldPath newPath (ts, w)))) newPath"
proof -
  from assms(2) have nu: "\<not> startsWith newPath (oldPath @ ''/'')"
    by (auto simp: isAncestor_def)
  have "newPath \<in> set (move_root_expanded oldPath newPath (expandedFolders ts))"
    using assms(1) by (auto simp: move_root_expanded_def jsset_add_def)
  then have "newPath \<in> set (snd (move_root_key oldPath newPath (treeData ts),
                            move_root_expanded oldPath newPath (expandedFolders ts)))"
    by simp
  then show ?thesis
    unfolding updateFolderReferences_expanded jsset_has_def
    using nu by (rule fold_rekey_keeps)
qed

lemma updateFolderReferences_currentPath:
  "currentPath (snd (updateFolderReferences oldPath newPath (ts, w)))
     = rewritePath oldPath newPath (currentPath w)"
  by (simp add: updateFolderReferences_def Let_def rewritePath_def slice_from_def startsWith_def)

lemma updateFolderReferences_currentFile:
  "currentFile w = Some f \<Longrightarrow> f \<noteq> oldPath \<Longrightarrow>
   currentFile (snd (updateFolderReferences oldPath newPath (ts, w)))
     = Some (rewritePath oldPath newPath f)"
  by (simp add: updateFolderReferences_def Let_def rewritePath_def slice_from_def startsWith_def)

lemma drop_world_rewrites:
  assumes "oldPath \<noteq> []"
  shows "currentPath (drop_world oldPath newPath w) = rewritePath oldPath newPath (currentPath w)"
    and "currentFile (drop_world oldPath newPath w)
           = map_option (rewritePath oldPath newPath) (currentFile w)"
  using assms
  by (auto simp: drop_world_def rewritePath_def startsWith_def split: option.splits)


lemma rekey_step_no_root:
  assumes on: "\<not> isAncestor newPath oldPath" and "oldPath \<notin> set (snd s)"
  shows "oldPath \<notin> set (snd (rekey_step oldPath newPath k s))"
proof (cases "startsWith k (oldPath @ ''/'')")
  case False
  with assms(2) show ?thesis by (simp add: rekey_step_skip)
next
  case True
  then obtain r where k: "k = oldPath @ ''/'' @ r"
    by (auto simp: startsWith_iff)
  have "newPath @ drop (length oldPath) k \<noteq> oldPath"
  proof
    assume "newPath @ drop (length oldPath) k = oldPath"
    then have "oldPath = newPath @ ''/'' @ r" by (simp add: k)
    then have "isAncestor newPath oldPath" by (auto simp: isAncestor_iff)
    with on show False by simp
  qed
  with assms(2) True show ?thesis
    by (auto simp: rekey_step_def Let_def slice_from_def jsset_has_def jsset_add_def
        jsset_delete_def)
qed

lemma fold_rekey_no_root:
  assumes "\<not> isAncestor newPath oldPath"
  shows "oldPath \<notin> set (snd s) \<Longrightarrow>
         oldPath \<notin> set (snd (fold (rekey_step oldPath newPath) ks s))"
proof (induction ks arbitrary: s)
  case Nil
  then show ?case by simp
next
  case (Cons k ks)
  from assms Cons.prems have "oldPath \<notin> set (snd (rekey_step oldPath newPath k s))"
    by (rule rekey_step_no_root)
  then show ?case by (simp add: Cons.IH)
qed

lemma expanded_root_removed:
  assumes neq: "oldPath \<noteq> newPath" and on: "\<not> isAncestor newPath oldPath"
  shows "\<not> jsset_has (expandedFolders (fst (updateFolderReferences oldPath newPath (ts, w))))
           oldPath"
proof -
  have "oldPath \<notin> set (move_root_expanded oldPath newPath (expandedFolders ts))"
    using neq by (auto simp: move_root_expanded_def jsset_has_def jsset_add_def jsset_delete_def)
  then have "oldPath \<notin> set (snd (move_root_key oldPath newPath (treeData ts),
                                  move_root_expanded oldPath newPath (expandedFolders ts)))"
    by simp
  with on show ?thesis
    unfolding updateFolderReferences_expanded jsset_has_def by (rule fold_rekey_no_root)
qed

text \<open>
  The case that \<open>updateFolderReferences\<close> misses: an expanded path under the renamed
  folder that is not a key of the cache stays in the expansion set as it is.
\<close>

lemma expanded_descendant_without_listing:
  assumes ex: "jsset_has (expandedFolders ts) q"
    and under: "startsWith q (oldPath @ ''/'')"
    and nokey: "q \<notin> set (obj_keys (treeData ts))"
    and nonew: "q \<noteq> newPath"
  shows "jsset_has (expandedFolders (fst (updateFolderReferences oldPath newPath (ts, w)))) q"
proof -
  from under have ne: "q \<noteq> oldPath"
    by (rule startsWith_longer)
  from nokey nonew move_root_key_subset [of oldPath newPath "treeData ts"]
  have nk: "q \<notin> set (obj_keys (move_root_key oldPath newPath (treeData ts)))"
    by blast
  have "q \<in> set (move_root_expanded oldPath newPath (expandedFolders ts))"
    using ex ne
    by (auto simp: move_root_expanded_def jsset_has_def jsset_add_def jsset_delete_def)
  then have "q \<in> set (snd (move_root_key oldPath newPath (treeData ts),
                            move_root_expanded oldPath newPath (expandedFolders ts)))"
    by simp
  then show ?thesis
    unfolding updateFolderReferences_expanded jsset_has_def
    using nk by (rule fold_rekey_untouched)
qed

subsection \<open>A rename with everything loaded\<close>

text \<open>
  A folder \<open>a\<close> with the loaded subfolder \<open>a/x\<close> is renamed to \<open>a2\<close> while \<open>a/x\<close> is the
  current folder, \<open>a/x/s.mp3\<close> is open and \<open>a\<close>, \<open>a/x\<close> and \<open>b\<close> are expanded: both
  functions rewrite every path under \<open>a\<close>.
\<close>

definition tree_a_ax :: "nat tree_state" where
  "tree_a_ax =
     \<lparr>selectedFolderPaths = [], treeAnchorPath = None, selectedTreeItem = None,
      expandedFolders = [''a'', ''a/x'', ''b''],
      treeData = [([], Listing 0), (''a'', Listing 1), (''a/x'', Listing 2),
                  (''b'', Listing 3)]\<rparr>"

definition world_in_ax :: app_world where
  "world_in_ax = world_abcd\<lparr>currentPath := ''a/x'', currentFile := Some ''a/x/s.mp3''\<rparr>"

lemma rename_with_listings_loaded:
  "rewritePath ''a'' ''a2'' ''a/x'' = ''a2/x''
   \<and> rewritePath ''a'' ''a2'' ''ab'' = ''ab''
   \<and> currentPath (drop_world ''a'' ''a2'' world_in_ax) = ''a2/x''
   \<and> currentFile (drop_world ''a'' ''a2'' world_in_ax) = Some ''a2/x/s.mp3''
   \<and> drop_expandedPaths ''a'' ''a2'' [''a'', ''a/x'', ''b''] = [''a2'', ''a2/x'', ''b'']
   \<and> currentPath (snd (updateFolderReferences ''a'' ''a2'' (tree_a_ax, world_in_ax))) = ''a2/x''
   \<and> currentFile (snd (updateFolderReferences ''a'' ''a2'' (tree_a_ax, world_in_ax)))
       = Some ''a2/x/s.mp3''
   \<and> treeData (fst (updateFolderReferences ''a'' ''a2'' (tree_a_ax, world_in_ax)))
       = [([], Listing 0), (''b'', Listing 3), (''a2'', Listing 1), (''a2/x'', Listing 2)]
   \<and> expandedFolders (fst (updateFolderReferences ''a'' ''a2'' (tree_a_ax, world_in_ax)))
       = [''b'', ''a2'', ''a2/x'']"
  by code_simp

text \<open>
  A read of the cache finds the members that a plain object inherits: renaming a
  folder \<open>constructor\<close> that has no cache entry gives the cache an entry for the new
  path.
\<close>

lemma rename_of_inherited_name:
  "treeData (fst (updateFolderReferences ''constructor'' ''x''
       (tree_a_ax\<lparr>expandedFolders := []\<rparr>, world_abcd)))
     = [([], Listing 0), (''a'', Listing 1), (''a/x'', Listing 2), (''b'', Listing 3),
        (''x'', Builtin)]"
  by code_simp

subsection \<open>The claim on the rewrite\<close>

text \<open>
  The folder \<open>a\<close> and its subfolder \<open>a/b\<close> are expanded; the cache holds the listings of
  the root and of \<open>a\<close>, and none for \<open>a/b\<close> (a click puts a folder into the expansion
  set at once, and its listing into the cache when the response arrives, if it does).
\<close>

definition tree_a_ab :: "nat tree_state" where
  "tree_a_ab =
     \<lparr>selectedFolderPaths = [], treeAnchorPath = None, selectedTreeItem = None,
      expandedFolders = [''a'', ''a/b''],
      treeData = [([], Listing 0), (''a'', Listing 1)]\<rparr>"

text \<open>
  C3 fails for \<open>updateFolderReferences\<close>, which rewrites an expanded path under the
  renamed folder only inside its loop over the keys of the cache. After the rename of
  \<open>a\<close> to \<open>a2\<close> the expansion set holds \<open>a2\<close> and still \<open>a/b\<close>, a path under \<open>a\<close> that the
  rewrite changes to \<open>a2/b\<close>. \<open>handleDrop\<close> (like the merge branch of \<open>saveFolderName\<close>)
  maps the rewrite over the whole expansion set, and gives \<open>a2\<close> and \<open>a2/b\<close>.
\<close>

theorem C3_expanded_descendant_not_rewritten:
  "isAncestor ''a'' ''a/b''
   \<and> rewritePath ''a'' ''a2'' ''a/b'' = ''a2/b''
   \<and> jsset_has (expandedFolders tree_a_ab) ''a/b''
   \<and> expandedFolders (fst (updateFolderReferences ''a'' ''a2'' (tree_a_ab, world_abcd)))
       = [''a/b'', ''a2'']
   \<and> drop_expandedPaths ''a'' ''a2'' (expandedFolders tree_a_ab) = [''a2'', ''a2/b'']"
  by code_simp

section \<open>A click after a rename, and during a reload\<close>

text \<open>
  What \<open>createTreeItem(item, level)\<close> adds to the document: the element \<open>div\<close>, whose
  \<open>dataset.path\<close> it sets to \<open>item.path\<close>, with handlers that go on reading the object
  \<open>item\<close>.
\<close>

record tree_row =
  row_div :: item_el
  row_item_path :: string

definition createTreeItem :: "string \<Rightarrow> elem \<Rightarrow> tree_row" where
  "createTreeItem path e = \<lparr>row_div = \<lparr>el_id = e, data_path = path\<rparr>, row_item_path = path\<rparr>"

definition set_dataset_path :: "tree_row \<Rightarrow> string \<Rightarrow> tree_row" where
  "set_dataset_path r path = r\<lparr>row_div := (row_div r)\<lparr>data_path := path\<rparr>\<rparr>"

text \<open>
  \<open>updateDOMPaths(oldPath, newPath)\<close> on the tree items of the document, in document
  order: \<open>querySelector\<close> finds the first element whose data path is \<open>oldPath\<close>, and
  \<open>querySelectorAll\<close> then finds the elements whose data path starts with
  \<open>oldPath + '/'\<close>; in these sources only tree items carry a data path. (The paths
  are taken to be free of the characters that would end the quoted string of the
  selector.)
\<close>

definition updateDOMPaths :: "string \<Rightarrow> string \<Rightarrow> tree_row list \<Rightarrow> tree_row list" where
  "updateDOMPaths oldPath newPath rows =
     (let rows1 = (case findIndex (\<lambda>r. data_path (row_div r) = oldPath) rows of
                     None \<Rightarrow> rows
                   | Some i \<Rightarrow> rows[i := set_dataset_path (rows ! i) newPath])
      in map (\<lambda>r. if startsWith (data_path (row_div r)) (oldPath @ ''/'')
                  then set_dataset_path r
                         (newPath @ slice_from (data_path (row_div r)) (length oldPath))
                  else r)
           rows1)"

text \<open>
  \<open>State.selectedTreeItem\<close> refers to an element of the document, and the model holds
  an element as its identity with the data path it has: when the data paths of the
  document have changed, the state is given the element as it is now.
\<close>

definition element_now :: "tree_row list \<Rightarrow> tree_selection \<Rightarrow> tree_selection" where
  "element_now rows sel =
     (case sel of
        PlainObject path \<Rightarrow> PlainObject path
      | TreeItem el \<Rightarrow>
          (case find (\<lambda>r. el_id (row_div r) = el_id el) rows of
             None \<Rightarrow> TreeItem el
           | Some r \<Rightarrow> TreeItem (row_div r)))"

text \<open>
  \<open>saveFolderName\<close> once the remote service has renamed the folder without a merge,
  for the tree item with the element \<open>e\<close>: \<open>item.path = result.newPath\<close>, for the
  \<open>item\<close> of that tree item alone, then \<open>updateFolderReferences(oldPath,
  result.newPath)\<close>, which ends with \<open>updateDOMPaths\<close>. The tree is not rebuilt.
\<close>

definition saveFolderName_renamed ::
  "elem \<Rightarrow> string \<Rightarrow> tree_row list \<times> ('v, 'a) tree_state_scheme \<times> 'b app_world_scheme
     \<Rightarrow> tree_row list \<times> ('v, 'a) tree_state_scheme \<times> 'b app_world_scheme" where
  "saveFolderName_renamed e newPath s =
     (let rows = fst s; ts = fst (snd s); w = snd (snd s) in
      case find (\<lambda>r. el_id (row_div r) = e) rows of
        None \<Rightarrow> s
      | Some row \<Rightarrow>
          (let oldPath = row_item_path row;
               rows1 = map (\<lambda>r. if el_id (row_div r) = e then r\<lparr>row_item_path := newPath\<rparr>
                                else r) rows;
               (ts1, w1) = updateFolderReferences oldPath newPath (ts, w);
               rows2 = updateDOMPaths oldPath newPath rows1;
               ts2 = ts1\<lparr>selectedTreeItem :=
                           map_option (element_now rows2) (selectedTreeItem ts1)\<rparr>
           in (rows2, ts2, w1)))"

text \<open>
  The folder \<open>a\<close> is selected and expanded, its subfolder \<open>a/x\<close> is shown under it, and
  \<open>a\<close> is renamed to \<open>a2\<close>.
\<close>

definition rows_a_ax :: "tree_row list" where
  "rows_a_ax = [createTreeItem ''a'' 1, createTreeItem ''a/x'' 2]"

definition tree_a_selected :: "nat tree_state" where
  "tree_a_selected =
     \<lparr>selectedFolderPaths = [''a''], treeAnchorPath = Some ''a'',
      selectedTreeItem = Some (TreeItem \<lparr>el_id = 1, data_path = ''a''\<rparr>),
      expandedFolders = [''a''],
      treeData = [([], Listing 0), (''a'', Listing 1)]\<rparr>"

definition after_rename :: "tree_row list \<times> nat tree_state \<times> app_world" where
  "after_rename = saveFolderName_renamed 1 ''a2'' (rows_a_ax, tree_a_selected, world_abcd)"

text \<open>
  The folder \<open>A\<close> is selected and expanded and \<open>reloadTreePreservingState\<close> has begun:
  it has put the object \<open>{ dataset: { path: 'A' } }\<close> into \<open>State.selectedTreeItem\<close> and
  waits for the listings, the tree still in the document.
\<close>

definition tree_reloading :: tree_pane where
  "tree_reloading =
     \<lparr>selectedFolderPaths = [''A''], treeAnchorPath = Some ''A'',
      selectedTreeItem = Some (PlainObject ''A''), expandedFolders = [''A'']\<rparr>"

text \<open>
  C7 fails in both its parts. After the rename of \<open>a\<close> to \<open>a2\<close> the selected item is the
  element of \<open>a2\<close>, which is expanded, and the element of the subfolder has the data
  path \<open>a2/x\<close>, which starts with \<open>a2/\<close>; but the \<open>item\<close> of the subfolder still has the
  path \<open>a/x\<close>, and that is what the handler tests: a plain click on the subfolder takes
  \<open>a2\<close> out of the expansion set (and puts \<open>a/x\<close> in). During a reload, a plain click
  on the folder \<open>B\<close>, which is neither above nor under \<open>A\<close>, ends in a \<open>TypeError\<close>
  before \<open>A\<close> is taken out of the expansion set.
\<close>

theorem C7_collapse_on_switch_fails:
  "fst after_rename
     = [\<lparr>row_div = \<lparr>el_id = 1, data_path = ''a2''\<rparr>, row_item_path = ''a2''\<rparr>,
        \<lparr>row_div = \<lparr>el_id = 2, data_path = ''a2/x''\<rparr>, row_item_path = ''a/x''\<rparr>]
   \<and> selectedTreeItem (fst (snd after_rename))
       = Some (TreeItem \<lparr>el_id = 1, data_path = ''a2''\<rparr>)
   \<and> expandedFolders (fst (snd after_rename)) = [''a2'']
   \<and> startsWith ''a2/x'' (''a2'' @ ''/'')
   \<and> fst (onclick_plain mark_selected (fst (snd after_rename))
            \<lparr>el_id = 2, data_path = ''a2/x''\<rparr> ''a/x'' False) = None
   \<and> expandedFolders (snd (onclick_plain mark_selected (fst (snd after_rename))
            \<lparr>el_id = 2, data_path = ''a2/x''\<rparr> ''a/x'' False)) = [''a/x'']
   \<and> \<not> isAncestor ''A'' ''B'' \<and> \<not> isAncestor ''B'' ''A''
   \<and> fst (onclick_plain mark_selected tree_reloading
            \<lparr>el_id = 2, data_path = ''B''\<rparr> ''B'' False) = Some TypeError
   \<and> expandedFolders (snd (onclick_plain mark_selected tree_reloading
            \<lparr>el_id = 2, data_path = ''B''\<rparr> ''B'' False)) = [''A'']
   \<and> selectedTreeItem (snd (onclick_plain mark_selected tree_reloading
            \<lparr>el_id = 2, data_path = ''B''\<rparr> ''B'' False)) = Some (PlainObject ''A'')"
  by code_simp

section \<open>Sorting\<close>

text \<open>
  An entry of a listing, as the remote service returns it: a name and a path, a type
  (\<open>'folder'\<close> for a folder), and the optional numbers \<open>date\<close>, \<open>size\<close> and \<open>created\<close>.
\<close>

record entry = node +
  entry_type :: string
  entry_date :: "nat option"
  entry_size :: "nat option"
  entry_created :: "nat option"

record sort_setting =
  sort_method :: string
  sort_direction :: string

text \<open>\<open>x || 0\<close> for a number that may be missing.\<close>

definition or_zero :: "nat option \<Rightarrow> nat" where
  "or_zero v = (case v of None \<Rightarrow> 0 | Some n \<Rightarrow> n)"

text \<open>\<open>name.split('.').pop()\<close>: what follows the last dot, the whole name without one.\<close>

definition extension :: "string \<Rightarrow> string" where
  "extension name = rev (takeWhile (\<lambda>c. c \<noteq> CHR ''.'') (rev name))"

text \<open>
  The values \<open>aVal\<close>, \<open>bVal\<close> that the comparison function of \<open>sortFiles\<close> compares with
  \<open>>\<close> and \<open><\<close>: strings (compared by code units) or numbers.
\<close>

datatype sort_key = StrKey string | NumKey nat

fun key_gt :: "sort_key \<Rightarrow> sort_key \<Rightarrow> bool" where
  "key_gt (StrKey a) (StrKey b) = (a > b)"
| "key_gt (NumKey a) (NumKey b) = (a > b)"
| "key_gt _ _ = False"

definition file_key :: "string \<Rightarrow> entry \<Rightarrow> sort_key" where
  "file_key method a =
     (if method = ''name'' then StrKey (toLowerCase (node_name a))
      else if method = ''date'' then NumKey (or_zero (entry_date a))
      else if method = ''type'' then StrKey (toLowerCase (extension (node_name a)))
      else if method = ''size'' then NumKey (or_zero (entry_size a))
      else StrKey (toLowerCase (node_name a)))"

text \<open>The comparison function of \<open>sortFiles\<close>.\<close>

definition compareFiles :: "sort_setting \<Rightarrow> entry \<Rightarrow> entry \<Rightarrow> int" where
  "compareFiles st a b =
     (let aVal = file_key (sort_method st) a; bVal = file_key (sort_method st) b in
      if sort_direction st = ''asc'' then (if key_gt aVal bVal then 1 else - 1)
      else (if key_gt bVal aVal then 1 else - 1))"

text \<open>
  The comparison function of \<open>sortItems\<close>. \<open>localeCompare\<close> depends on the locale of the
  browser: it is a parameter.
\<close>

definition compareItems ::
  "(string \<Rightarrow> string \<Rightarrow> int) \<Rightarrow> sort_setting \<Rightarrow> entry \<Rightarrow> entry \<Rightarrow> int" where
  "compareItems localeCompare st a b =
     (let comparison =
            (if sort_method st = ''name''
             then localeCompare (toLowerCase (node_name a)) (toLowerCase (node_name b))
             else if sort_method st = ''date''
             then int (or_zero (entry_created a)) - int (or_zero (entry_created b))
             else if sort_method st = ''size''
             then int (or_zero (entry_size a)) - int (or_zero (entry_size b))
             else 0)
      in if sort_direction st = ''asc'' then comparison else - comparison)"

text \<open>
  \<open>Array.prototype.sort(comparefn)\<close> is the platform's. ECMAScript requires it to be
  stable and to order by \<open>comparefn\<close> when that is a consistent comparison function,
  and leaves the order to the implementation when it is not. The model is the
  insertion sort that V8 applies to arrays of fewer than 64 entries: each entry in
  turn, from the left, is put before the first of the entries already placed that it
  compares less than (\<open>comparefn\<close> answers a negative number), and after all of them
  when there is none. (V8 finds that place by bisection, which gives the same place
  for the comparison functions of these sources.)
\<close>

fun insert_by :: "('a \<Rightarrow> 'a \<Rightarrow> int) \<Rightarrow> 'a \<Rightarrow> 'a list \<Rightarrow> 'a list" where
  "insert_by cmp x [] = [x]"
| "insert_by cmp x (y # ys) = (if cmp x y < 0 then x # y # ys else y # insert_by cmp x ys)"

definition js_sort :: "('a \<Rightarrow> 'a \<Rightarrow> int) \<Rightarrow> 'a list \<Rightarrow> 'a list" where
  "js_sort cmp xs = foldl (\<lambda>placed x. insert_by cmp x placed) [] xs"

section \<open>Arrays by reference\<close>

text \<open>
  Whether a sort changes the caller's array depends on which array object is
  sorted. The arrays live in a store; an address is an index into it, and a new array
  gets the next free address.
\<close>

type_synonym 'a store = "'a list list"

text \<open>\<open>sortFiles(files)\<close>: \<open>[...files]\<close> is a new array, which is sorted and returned.\<close>

definition sortFiles :: "sort_setting \<Rightarrow> entry store \<Rightarrow> nat \<Rightarrow> nat \<times> entry store" where
  "sortFiles st h files = (length h, h @ [js_sort (compareFiles st) (h ! files)])"

text \<open>\<open>sortItems(items)\<close>: \<open>items.sort(...)\<close> sorts the array itself and returns it.\<close>

definition sortItems ::
  "(string \<Rightarrow> string \<Rightarrow> int) \<Rightarrow> sort_setting \<Rightarrow> entry store \<Rightarrow> nat \<Rightarrow> nat \<times> entry store" where
  "sortItems localeCompare st h items =
     (items, h[items := js_sort (compareItems localeCompare st) (h ! items)])"

text \<open>
  \<open>filterTreeItems(items, filterText)\<close>: the array itself for an empty filter text, a new
  array from \<open>items.filter(...)\<close> otherwise.
\<close>

definition filterTreeItems :: "entry store \<Rightarrow> nat \<Rightarrow> string \<Rightarrow> nat \<times> entry store" where
  "filterTreeItems h items filterText =
     (if filterText = [] then (items, h)
      else (length h,
            h @ [filter (\<lambda>item. str_includes (toLowerCase (node_name item)) (toLowerCase filterText))
                   (h ! items)]))"

text \<open>
  The rebuild of one level of the tree from its cache entry, as \<open>buildTreeFromData\<close>
  does for the root and \<open>rebuildChildren\<close> for an expanded folder: filter, sort, and
  render the folders. \<open>cached\<close> is the address of \<open>State.treeData[path]\<close>. The result
  is the rendered list and the store.
\<close>

definition rebuild_level ::
  "(string \<Rightarrow> string \<Rightarrow> int) \<Rightarrow> sort_setting \<Rightarrow> string \<Rightarrow> entry store \<Rightarrow> nat
     \<Rightarrow> entry list \<times> entry store" where
  "rebuild_level localeCompare st foldersFilter h cached =
     (let (filteredItems, h1) = filterTreeItems h cached foldersFilter;
          (sortedItems, h2) = sortItems localeCompare st h1 filteredItems
      in (filter (\<lambda>item. entry_type item = ''folder'') (h2 ! sortedItems), h2))"

lemma mset_insert_by: "mset (insert_by cmp x ys) = add_mset x (mset ys)"
  by (induction ys) simp_all

lemma js_sort_snoc: "js_sort cmp (xs @ [x]) = insert_by cmp x (js_sort cmp xs)"
  by (simp add: js_sort_def)

lemma mset_js_sort: "mset (js_sort cmp xs) = mset xs"
proof (induction xs rule: rev_induct)
  case Nil
  show ?case by (simp add: js_sort_def)
next
  case (snoc x xs)
  then show ?case by (simp add: js_sort_snoc mset_insert_by)
qed


section \<open>Which array a sort changes\<close>

definition folder_zb :: entry where
  "folder_zb = \<lparr>node_name = ''zb'', node_path = ''zb'', entry_type = ''folder'',
                 entry_date = None, entry_size = None, entry_created = Some 2\<rparr>"

definition folder_ab :: entry where
  "folder_ab = \<lparr>node_name = ''ab'', node_path = ''ab'', entry_type = ''folder'',
                 entry_date = None, entry_size = None, entry_created = Some 1\<rparr>"

definition by_date_asc :: sort_setting where
  "by_date_asc = \<lparr>sort_method = ''date'', sort_direction = ''asc''\<rparr>"

definition no_collation :: "string \<Rightarrow> string \<Rightarrow> int" where
  "no_collation a b = 0"

text \<open>
  C10, as stated, fails in its last part: a tree rebuild does not always reorder the
  cached array. The cache entry holds \<open>zb\<close> (created 2) before \<open>ab\<close> (created 1), the
  sort is by date, ascending, and the folder filter is \<open>b\<close>. The rebuild renders \<open>ab\<close>
  before \<open>zb\<close>, and the cached array is as it was, unsorted: \<open>filterTreeItems\<close> made a
  new array and \<open>sortItems\<close> sorted that one.
\<close>

theorem C10_counterexample:
  "fst (rebuild_level no_collation by_date_asc ''b'' [[folder_zb, folder_ab]] 0)
     = [folder_ab, folder_zb]
   \<and> snd (rebuild_level no_collation by_date_asc ''b'' [[folder_zb, folder_ab]] 0) ! 0
     = [folder_zb, folder_ab]
   \<and> js_sort (compareItems no_collation by_date_asc) [folder_zb, folder_ab]
     = [folder_ab, folder_zb]"
  by (simp add: rebuild_level_def filterTreeItems_def sortItems_def js_sort_def
      compareItems_def by_date_asc_def folder_zb_def folder_ab_def or_zero_def Let_def
      toLowerCase_def lower_char_def capitals_def smalls_def startsWith_def)

text \<open>
  C10, amended. \<open>sortFiles\<close> returns a new array (an address that was free) holding the
  sorted entries and leaves every array of the store, its argument among them, as it
  was. \<open>sortItems\<close> returns the address it was given, and the array there holds the
  same entries, sorted; no other array changes. A tree rebuild therefore sorts the
  cached array of the level in place when the folder filter is empty, and leaves
  every array that existed, the cached one among them, as it was when the filter is
  not empty.
\<close>

theorem C10_sort_frames:
  assumes a: "a < length h"
  shows "fst (sortFiles st h a) = length h
       \<and> (\<forall>b. b < length h \<longrightarrow> snd (sortFiles st h a) ! b = h ! b)
       \<and> snd (sortFiles st h a) ! fst (sortFiles st h a) = js_sort (compareFiles st) (h ! a)
       \<and> mset (snd (sortFiles st h a) ! fst (sortFiles st h a)) = mset (h ! a)
       \<and> fst (sortItems lc st h a) = a
       \<and> snd (sortItems lc st h a) ! a = js_sort (compareItems lc st) (h ! a)
       \<and> mset (snd (sortItems lc st h a) ! a) = mset (h ! a)
       \<and> length (snd (sortItems lc st h a)) = length h
       \<and> (\<forall>b. b < length h \<and> b \<noteq> a \<longrightarrow> snd (sortItems lc st h a) ! b = h ! b)
       \<and> snd (rebuild_level lc st [] h a) ! a = js_sort (compareItems lc st) (h ! a)
       \<and> (flt \<noteq> [] \<longrightarrow>
            (\<forall>b. b < length h \<longrightarrow> snd (rebuild_level lc st flt h a) ! b = h ! b))"
proof (intro conjI allI impI)
  show "fst (sortFiles st h a) = length h"
    by (simp add: sortFiles_def)
  show "snd (sortFiles st h a) ! b = h ! b" if "b < length h" for b
    using that by (simp add: sortFiles_def nth_append)
  show "snd (sortFiles st h a) ! fst (sortFiles st h a) = js_sort (compareFiles st) (h ! a)"
    by (simp add: sortFiles_def)
  then show "mset (snd (sortFiles st h a) ! fst (sortFiles st h a)) = mset (h ! a)"
    by (simp add: mset_js_sort)
  show "fst (sortItems lc st h a) = a"
    by (simp add: sortItems_def)
  show s: "snd (sortItems lc st h a) ! a = js_sort (compareItems lc st) (h ! a)"
    using a by (simp add: sortItems_def)
  then show "mset (snd (sortItems lc st h a) ! a) = mset (h ! a)"
    by (simp add: mset_js_sort)
  show "length (snd (sortItems lc st h a)) = length h"
    by (simp add: sortItems_def)
  show "snd (sortItems lc st h a) ! b = h ! b" if "b < length h \<and> b \<noteq> a" for b
    using that by (simp add: sortItems_def)
  show "snd (rebuild_level lc st [] h a) ! a = js_sort (compareItems lc st) (h ! a)"
    using a by (simp add: rebuild_level_def filterTreeItems_def sortItems_def)
  show "snd (rebuild_level lc st flt h a) ! b = h ! b" if "flt \<noteq> []" "b < length h" for b
    using that by (simp add: rebuild_level_def filterTreeItems_def sortItems_def nth_append)
qed

theorem C10_sort_frames_witness:
  "sortFiles by_date_asc [[folder_zb, folder_ab]] 0
     = (1, [[folder_zb, folder_ab], js_sort (compareFiles by_date_asc) [folder_zb, folder_ab]])
   \<and> sortItems no_collation by_date_asc [[folder_zb, folder_ab]] 0
     = (0, [[folder_ab, folder_zb]])
   \<and> snd (rebuild_level no_collation by_date_asc [] [[folder_zb, folder_ab]] 0) ! 0
     = [folder_ab, folder_zb]
   \<and> snd (rebuild_level no_collation by_date_asc ''b'' [[folder_zb, folder_ab]] 0) ! 0
     = [folder_zb, folder_ab]"
  using C10_sort_frames
      [where a = 0 and h = "[[folder_zb, folder_ab]]" and st = by_date_asc
         and lc = no_collation and flt = "''b''"]
  by (simp add: sortFiles_def sortItems_def js_sort_def compareItems_def by_date_asc_def
      folder_zb_def folder_ab_def or_zero_def Let_def)

section \<open>The visible lists\<close>

text \<open>
  \<open>renderFileList\<close>: nothing is rendered for an empty list of files; otherwise the
  files whose lower-cased name includes the lower-cased, trimmed filter are kept (all
  of them when that filter is empty) and \<open>sortFiles\<close> sorts them. The result is the
  rendered list and the store.
\<close>

definition renderFileList ::
  "sort_setting \<Rightarrow> string \<Rightarrow> entry store \<Rightarrow> nat \<Rightarrow> entry list \<times> entry store" where
  "renderFileList st filesFilter h currentFiles =
     (if h ! currentFiles = [] then ([], h)
      else
        (let filterValue = trim (toLowerCase filesFilter);
             (filteredFiles, h1) =
               (if filterValue \<noteq> []
                then (length h,
                      h @ [filter (\<lambda>file. str_includes (toLowerCase (node_name file)) filterValue)
                             (h ! currentFiles)])
                else (currentFiles, h));
             (sortedFiles, h2) = sortFiles st h1 filteredFiles
         in (h2 ! sortedFiles, h2)))"

subsection \<open>Entries with the same key\<close>

text \<open>
  The comparison function of \<open>sortFiles\<close> never answers 0. Of two files with the same
  key it says, whichever is given first, that the first comes before the second. The
  comparison function of \<open>sortItems\<close> answers 0 for two folders with the same key.
\<close>

lemma key_gt_irrefl: "\<not> key_gt k k"
  by (cases k) simp_all

lemma compareFiles_nonzero: "compareFiles st x y \<noteq> 0"
  by (simp add: compareFiles_def Let_def)

lemma compareFiles_same_key:
  assumes "file_key (sort_method st) x = file_key (sort_method st) y"
  shows "compareFiles st x y = - 1" and "compareFiles st y x = - 1"
  using assms by (simp_all add: compareFiles_def Let_def key_gt_irrefl)

lemma compareItems_same_key:
  assumes "sort_method st = ''name''
             \<longrightarrow> lc (toLowerCase (node_name a)) (toLowerCase (node_name b)) = 0"
    and "or_zero (entry_created a) = or_zero (entry_created b)"
    and "or_zero (entry_size a) = or_zero (entry_size b)"
  shows "compareItems lc st a b = 0"
  using assms by (simp add: compareItems_def)

subsection \<open>Concrete lists\<close>

definition file_named :: "string \<Rightarrow> entry" where
  "file_named n = \<lparr>node_name = n, node_path = ''music/'' @ n, entry_type = ''file'',
     entry_date = None, entry_size = None, entry_created = None\<rparr>"

definition folder_named :: "string \<Rightarrow> entry" where
  "folder_named n = \<lparr>node_name = n, node_path = ''music/'' @ n, entry_type = ''folder'',
     entry_date = None, entry_size = None, entry_created = None\<rparr>"

definition by_name_asc :: sort_setting where
  "by_name_asc = \<lparr>sort_method = ''name'', sort_direction = ''asc''\<rparr>"

definition by_size_asc :: sort_setting where
  "by_size_asc = \<lparr>sort_method = ''size'', sort_direction = ''asc''\<rparr>"

text \<open>A collation for the folder pane of the examples: the order of the code units.\<close>

definition code_unit_collation :: "string \<Rightarrow> string \<Rightarrow> int" where
  "code_unit_collation a b = (if a < b then - 1 else if b < a then 1 else 0)"

definition files_of_folder :: "entry store" where
  "files_of_folder = [[file_named ''zb.mp3'', file_named ''Ab.mp3'', file_named ''b.mp3'',
                    file_named ''c.mp3'', file_named ''ab.mp3'']]"

definition cached_level :: "entry store" where
  "cached_level = [[folder_named ''zb'', folder_named ''Ab'', file_named ''b.mp3'',
                    folder_named ''c'', folder_named ''ab'']]"

text \<open>
  The file pane trims the filter before it looks for it in the names: with the
  filter \<open>'' a''\<close> the file \<open>ba\<close> is rendered.
\<close>

lemma files_filter_is_trimmed:
  "fst (renderFileList by_name_asc '' a'' [[file_named ''ba'']] 0) = [file_named ''ba'']
   \<and> \<not> str_includes (toLowerCase (node_name (file_named ''ba''))) (toLowerCase '' a'')"
  by code_simp

text \<open>
  C8 fails in the file pane. \<open>Ab.mp3\<close> and \<open>ab.mp3\<close> have the same key under the sort by
  name, and the comparison function of \<open>sortFiles\<close> answers \<open>-1\<close> for them in either
  order, where that of \<open>sortItems\<close> answers 0 for the folders \<open>Ab\<close> and \<open>ab\<close>. The sort
  is not told of the tie: with the filter \<open>'' B''\<close> the file pane renders \<open>ab.mp3\<close>
  before \<open>Ab.mp3\<close>, which was listed before it, while the folder pane, with the filter
  \<open>''B''\<close>, keeps \<open>Ab\<close> before \<open>ab\<close>. Sorted by size, where every file has the key 0,
  the files are rendered in the reverse of their order in the list.
\<close>

theorem C8_file_pane_reverses_ties:
  "file_key (sort_method by_name_asc) (file_named ''Ab.mp3'')
     = file_key (sort_method by_name_asc) (file_named ''ab.mp3'')
   \<and> compareFiles by_name_asc (file_named ''Ab.mp3'') (file_named ''ab.mp3'') = - 1
   \<and> compareFiles by_name_asc (file_named ''ab.mp3'') (file_named ''Ab.mp3'') = - 1
   \<and> compareItems code_unit_collation by_name_asc (folder_named ''Ab'') (folder_named ''ab'') = 0
   \<and> fst (renderFileList by_name_asc '' B'' files_of_folder 0)
       = [file_named ''ab.mp3'', file_named ''Ab.mp3'', file_named ''b.mp3'',
          file_named ''zb.mp3'']
   \<and> fst (rebuild_level code_unit_collation by_name_asc ''B'' cached_level 0)
       = [folder_named ''Ab'', folder_named ''ab'', folder_named ''zb'']
   \<and> fst (renderFileList by_size_asc [] files_of_folder 0)
       = [file_named ''ab.mp3'', file_named ''c.mp3'', file_named ''b.mp3'',
          file_named ''Ab.mp3'', file_named ''zb.mp3'']"
  by code_simp

end
